theory Spec2Isabelle
  imports
    Main
    "HOL-Library.Word"
    "HOL-Library.AList"
    "HOL-Library.Char_ord"
    "HOL-Library.List_Lexorder"
    "HOL-Library.Multiset"
begin

unbundle bit_operations_syntax

section \<open>embedfiles: the byte encoder and the manifest builder\<close>

text \<open>
  A shallow embedding of \<^verbatim>\<open>embedfiles.go\<close>. Go strings and byte slices holding text are
  \<open>string\<close> (a list of 8-bit characters), the bytes of a file are \<open>8 word\<close>, Go's
  \<open>int\<close> and \<open>int64\<close> are \<open>int\<close>: the counters only ever add the lengths of chunks held
  in memory, and the in-memory buffer that holds six characters per byte read is exhausted
  long before a 64-bit counter could wrap.
\<close>

subsection \<open>Errors\<close>

text \<open>
  The error values the program meets. \<open>EOF\<close> is \<^verbatim>\<open>io.EOF\<close>, which the code recognises by
  identity; \<open>ErrBadPattern\<close> is \<^verbatim>\<open>filepath.ErrBadPattern\<close>, the only error
  \<^verbatim>\<open>filepath.Glob\<close> returns; \<open>ErrNotExist\<close> is \<^verbatim>\<open>os.ErrNotExist\<close>; \<open>ErrorString\<close> is
  any error made by \<^verbatim>\<open>errors.New\<close> or \<^verbatim>\<open>fmt.Errorf\<close>, or met in the operating system,
  with its message. \<open>Error\<close> is the method \<^verbatim>\<open>Error()\<close>, with the messages of the Go library.
\<close>

datatype error = EOF | ErrBadPattern | ErrNotExist | ErrorString string

fun Error :: "error \<Rightarrow> string" where
  "Error EOF = ''EOF''"
| "Error ErrBadPattern = ''syntax error in pattern''"
| "Error ErrNotExist = ''file does not exist''"
| "Error (ErrorString s) = s"

subsection \<open>Readers and writers\<close>

text \<open>
  An \<^verbatim>\<open>io.Reader\<close> is given by what its successive \<^verbatim>\<open>Read(buf)\<close> calls return: the bytes
  \<^verbatim>\<open>buf[0:rn]\<close> and the error. \<^verbatim>\<open>fmtBytes\<close> reads into a buffer of 16 bytes, so a reader
  that keeps the contract of \<^verbatim>\<open>io.Reader\<close> returns at most 16 bytes per call. The list is a
  finite prefix of the reader's behaviour: a loop that consumes all of it without having
  returned has no result.

  An \<^verbatim>\<open>io.Writer\<close> is a state \<open>'w\<close> with the function \<^verbatim>\<open>Write\<close>, which returns the count it
  reports, the error and the new state. \<open>Buffer_Write\<close> is \<^verbatim>\<open>(*bytes.Buffer).Write\<close>: it
  appends all of the text and never returns an error.
\<close>

type_synonym u8 = "8 word"

type_synonym read_event = "u8 list \<times> error option"

type_synonym 'w Writer = "'w \<Rightarrow> string \<Rightarrow> (int \<times> error option) \<times> 'w"

definition Buffer_Write :: "string Writer" where
  "Buffer_Write b p = ((int (length p), None), b @ p)"

subsection \<open>fmtBytes\<close>

definition digits :: string where
  "digits = ''0123456789abcdef''"

text \<open>The six characters appended to \<^verbatim>\<open>fbuf\<close> for one byte of \<^verbatim>\<open>buf\<close>.\<close>

definition fmt_byte :: "u8 \<Rightarrow> string" where
  "fmt_byte b =
     [CHR '' '', CHR ''0'', CHR ''x'',
      digits ! unat (drop_bit 4 b), digits ! unat (b AND 0xf), CHR '','']"

text \<open>
  The contents of \<^verbatim>\<open>fbuf\<close> when it is written: \<^verbatim>\<open>fbuf\<close> is empty at the start of each
  round (it is emptied after each successful write, and a failed write returns).
\<close>

definition fbuf :: "u8 list \<Rightarrow> string" where
  "fbuf chunk = ''   '' @ concat (map fmt_byte chunk) @ ''\<newline>''"

text \<open>
  The block \<^verbatim>\<open>if rn > 0 { ... }\<close> of the loop: the new writer state, \<^verbatim>\<open>bytesRead\<close>,
  \<^verbatim>\<open>bytesWritten\<close>, and the write error if the function returns from inside the block.
\<close>

definition write_block ::
  "'w Writer \<Rightarrow> u8 list \<Rightarrow> 'w \<Rightarrow> int \<Rightarrow> int \<Rightarrow> 'w \<times> int \<times> int \<times> error option" where
  "write_block out chunk w bytesRead bytesWritten =
     (if 0 < length chunk then
        (case out w (fbuf chunk) of
           ((wn, Some werr), w') \<Rightarrow> (w', bytesRead, bytesWritten + wn, Some werr)
         | ((wn, None), w') \<Rightarrow>
             (w', bytesRead + int (length chunk), bytesWritten + wn, None))
      else (w, bytesRead, bytesWritten, None))"

fun fmtBytes_loop ::
  "'w Writer \<Rightarrow> read_event list \<Rightarrow> 'w \<Rightarrow> int \<Rightarrow> int
     \<Rightarrow> ((int \<times> int \<times> error option) \<times> 'w) option" where
  "fmtBytes_loop out [] w bytesRead bytesWritten = None"
| "fmtBytes_loop out ((chunk, rerr) # rest) w bytesRead bytesWritten =
     (case write_block out chunk w bytesRead bytesWritten of
        (w', br, bw, Some werr) \<Rightarrow> Some ((br, bw, Some werr), w')
      | (w', br, bw, None) \<Rightarrow>
          (case rerr of
             Some EOF \<Rightarrow> Some ((br, bw, None), w')
           | Some e \<Rightarrow> Some ((br, bw, Some e), w')
           | None \<Rightarrow> fmtBytes_loop out rest w' br bw))"

definition fmtBytes ::
  "'w Writer \<Rightarrow> read_event list \<Rightarrow> 'w \<Rightarrow> ((int \<times> int \<times> error option) \<times> 'w) option" where
  "fmtBytes out rd w = fmtBytes_loop out rd w 0 0"

subsection \<open>Reading the emitted tokens back\<close>

text \<open>
  The decoder of the specification: the text is cut into tokens at spaces, commas and line
  ends, and a token \<^verbatim>\<open>0xHH\<close> of two lower-case hexadecimal digits is a byte.
\<close>

definition is_sep :: "char \<Rightarrow> bool" where
  "is_sep c = (c = CHR '' '' \<or> c = CHR '','' \<or> c = CHR ''\<newline>'')"

fun tokens_from :: "string \<Rightarrow> string \<Rightarrow> string list" where
  "tokens_from cur [] = (if cur = [] then [] else [cur])"
| "tokens_from cur (c # cs) =
     (if is_sep c then (if cur = [] then tokens_from [] cs else cur # tokens_from [] cs)
      else tokens_from (cur @ [c]) cs)"

definition tokens :: "string \<Rightarrow> string list" where
  "tokens s = tokens_from [] s"

fun index_of :: "'a \<Rightarrow> 'a list \<Rightarrow> nat option" where
  "index_of x [] = None"
| "index_of x (y # ys) = (if x = y then Some 0 else map_option Suc (index_of x ys))"

definition hexval :: "char \<Rightarrow> nat option" where
  "hexval c = index_of c digits"

fun parse_token :: "string \<Rightarrow> u8 option" where
  "parse_token [z, x, h, l] =
     (if z = CHR ''0'' \<and> x = CHR ''x'' then
        (case (hexval h, hexval l) of
           (Some a, Some b) \<Rightarrow> Some (of_nat (16 * a + b))
         | _ \<Rightarrow> None)
      else None)"
| "parse_token _ = None"

text \<open>
  What a reader hands over before the loop returns: the chunks up to and including the first
  one that comes with an error.
\<close>

fun consumed :: "read_event list \<Rightarrow> u8 list list" where
  "consumed [] = []"
| "consumed ((chunk, rerr) # rest) = (case rerr of None \<Rightarrow> chunk # consumed rest | Some e \<Rightarrow> [chunk])"

text \<open>The lines \<^verbatim>\<open>fmtBytes\<close> writes for these chunks: one for each chunk that is not empty.\<close>

definition encoded :: "u8 list list \<Rightarrow> string" where
  "encoded chunks = concat (map fbuf (filter (\<lambda>c. c \<noteq> []) chunks))"

text \<open>The error a reader returns first, if the list reaches one.\<close>

fun read_error :: "read_event list \<Rightarrow> error option" where
  "read_error [] = None"
| "read_error ((chunk, rerr) # rest) = (case rerr of None \<Rightarrow> read_error rest | Some e \<Rightarrow> Some e)"

text \<open>The token emitted for one byte.\<close>

definition tok :: "u8 \<Rightarrow> string" where
  "tok b = [CHR ''0'', CHR ''x'', digits ! unat (drop_bit 4 b), digits ! unat (b AND 0xf)]"

text \<open>
  A writer that takes at most 40 characters in all and reports how much of a write it took,
  as a file on a full disk does.
\<close>

definition Limited_Write :: "string Writer" where
  "Limited_Write b p =
     (if length b + length p \<le> 40 then ((int (length p), None), b @ p)
      else ((int (40 - length b), Some (ErrorString ''short write'')),
            b @ take (40 - length b) p))"

subsection \<open>The library functions generate uses\<close>

text \<open>\<^verbatim>\<open>strings.HasPrefix\<close> and \<^verbatim>\<open>strings.TrimPrefix\<close>.\<close>

definition HasPrefix :: "string \<Rightarrow> string \<Rightarrow> bool" where
  "HasPrefix s p = (length p \<le> length s \<and> take (length p) s = p)"

definition TrimPrefix :: "string \<Rightarrow> string \<Rightarrow> string" where
  "TrimPrefix s p = (if HasPrefix s p then drop (length p) s else s)"

text \<open>The verb \<^verbatim>\<open>%d\<close> of package \<^verbatim>\<open>fmt\<close>: an integer in decimal.\<close>

fun fmt_nat :: "nat \<Rightarrow> string" where
  "fmt_nat n =
     (if n < 10 then [''0123456789'' ! n]
      else fmt_nat (n div 10) @ [''0123456789'' ! (n mod 10)])"

declare fmt_nat.simps [simp del]

definition fmt_d :: "int \<Rightarrow> string" where
  "fmt_d i = (if i < 0 then CHR ''-'' # fmt_nat (nat (- i)) else fmt_nat (nat i))"

definition join :: "string \<Rightarrow> string list \<Rightarrow> string" where
  "join sep xs = (case xs of [] \<Rightarrow> [] | y # ys \<Rightarrow> y @ concat (map (\<lambda>z. sep @ z) ys))"

text \<open>
  The verb \<^verbatim>\<open>%#v\<close> on a \<^verbatim>\<open>[]string\<close>, given the quoting of one string (\<^verbatim>\<open>strconv.Quote\<close>,
  which is what \<^verbatim>\<open>%#v\<close> does to a string). \<^verbatim>\<open>filenames\<close> is nil until the first
  \<^verbatim>\<open>append\<close>, so the empty list is the nil slice.
\<close>

definition fmt_strings :: "(string \<Rightarrow> string) \<Rightarrow> string list \<Rightarrow> string" where
  "fmt_strings quote xs =
     (if xs = [] then ''[]string(nil)'' else ''[]string{'' @ join '', '' (map quote xs) @ ''}'')"

subsection \<open>The world generate runs in\<close>

text \<open>
  An open file: what its \<^verbatim>\<open>Read\<close> calls return, and what \<^verbatim>\<open>f.Stat()\<close> returns, the
  modification time \<^verbatim>\<open>fi.ModTime().Unix()\<close> or an error.
\<close>

record os_File =
  Read :: "read_event list"
  Stat :: "error + int"

text \<open>The struct \<^verbatim>\<open>entry\<close>, with its fields \<^verbatim>\<open>ts\<close>, \<^verbatim>\<open>offset\<close> and \<^verbatim>\<open>size\<close>.\<close>

record entry =
  entry_ts :: int
  entry_offset :: int
  entry_size :: int

text \<open>
  What the program takes from outside: \<^verbatim>\<open>filepath.Glob\<close> and \<^verbatim>\<open>os.Open\<close> on the file
  system (which does not change during a run), \<^verbatim>\<open>strconv.Quote\<close>, the formatted time
  \<^verbatim>\<open>time.Now().Format(time.UnixDate)\<close>, and the order in which \<^verbatim>\<open>range\<close> visits the
  entries of a map, which Go leaves to the runtime.
\<close>

record system =
  Glob :: "string \<Rightarrow> error + string list"
  os_Open :: "string \<Rightarrow> error + os_File"
  Quote :: "string \<Rightarrow> string"
  Now :: string
  map_range :: "(string \<times> entry) list \<Rightarrow> (string \<times> entry) list"

subsection \<open>generate\<close>

text \<open>
  The local variables of \<^verbatim>\<open>generate\<close>. The map \<^verbatim>\<open>filemap\<close> is a list of pairs with one pair
  for each key: an assignment \<^verbatim>\<open>filemap[name] = e\<close> is \<open>AList.update\<close>.
\<close>

record gen =
  offset :: int
  fcount :: int
  filenames :: "string list"
  filemap :: "(string \<times> entry) list"
  databuf :: string

definition gen_init :: gen where
  "gen_init = \<lparr>offset = 0, fcount = 0, filenames = [], filemap = [], databuf = []\<rparr>"

text \<open>
  The body of the loop over \<^verbatim>\<open>names\<close>. The result is \<open>None\<close> when \<^verbatim>\<open>fmtBytes\<close> has
  none, \<open>Some (Inl err)\<close> when \<^verbatim>\<open>generate\<close> returns \<open>err\<close> from here, and the local
  variables after the round otherwise.
\<close>

definition process_file :: "system \<Rightarrow> gen \<Rightarrow> string \<Rightarrow> (error + gen) option" where
  "process_file sys g name =
     (let g1 = g\<lparr>fcount := fcount g + 1,
                 databuf := databuf g @ ''\<newline>    //'' @ '' '' @ name @ ''\<newline>''\<rparr>
      in case os_Open sys name of
           Inl err \<Rightarrow>
             Some (Inl (ErrorString (''Failed to read '' @ name @ '': '' @ Error err)))
         | Inr f \<Rightarrow>
             (let name' = TrimPrefix name ''/'';
                  g2 = g1\<lparr>filenames := filenames g1 @ [name']\<rparr>;
                  ts = (case Stat f of Inr t \<Rightarrow> t | Inl err \<Rightarrow> 0)
              in case fmtBytes Buffer_Write (Read f) (databuf g2) of
                   None \<Rightarrow> None
                 | Some ((br, bw, Some err), buf) \<Rightarrow>
                     Some (Inl (ErrorString
                       (''Failed to process '' @ name' @ '': '' @ Error err)))
                 | Some ((br, bw, None), buf) \<Rightarrow>
                     Some (Inr (g2\<lparr>databuf := buf,
                       filemap := AList.update name'
                         \<lparr>entry_ts = ts, entry_offset = offset g2, entry_size = br\<rparr>
                         (filemap g2),
                       offset := offset g2 + br\<rparr>))))"

fun process_names :: "system \<Rightarrow> gen \<Rightarrow> string list \<Rightarrow> (error + gen) option" where
  "process_names sys g [] = Some (Inr g)"
| "process_names sys g (name # names) =
     (case process_file sys g name of
        None \<Rightarrow> None
      | Some (Inl err) \<Rightarrow> Some (Inl err)
      | Some (Inr g') \<Rightarrow> process_names sys g' names)"

fun process_globs :: "system \<Rightarrow> gen \<Rightarrow> string list \<Rightarrow> (error + gen) option" where
  "process_globs sys g [] = Some (Inr g)"
| "process_globs sys g (pattern # globs) =
     (case Glob sys pattern of
        Inl err \<Rightarrow> Some (Inl err)
      | Inr names \<Rightarrow>
          (case process_names sys g names of
             None \<Rightarrow> None
           | Some (Inl err) \<Rightarrow> Some (Inl err)
           | Some (Inr g') \<Rightarrow> process_globs sys g' globs))"

definition TAB :: string where
  "TAB = [CHR 0x09]"

text \<open>
  The template \<^verbatim>\<open>header\<close> executed on its data. An action \<^verbatim>\<open>{{-\<close> removes the white space
  before it and \<^verbatim>\<open>-}}\<close> the white space after it.
\<close>

definition header :: "string \<Rightarrow> string \<Rightarrow> bool \<Rightarrow> string \<Rightarrow> int \<Rightarrow> string" where
  \<open>header pkg time IncludeHTTP prefix DataSize =
     concat
      [''package '' @ pkg @ ''\<newline>'',
       ''\<newline>'',
       ''// Generated by github.com/gwatts/embedfiles\<newline>'',
       ''// at '' @ time @ ''\<newline>'',
       ''\<newline>'',
       ''import (\<newline>'',
       TAB @ ''"bytes"\<newline>'',
       TAB @ ''"errors"\<newline>'',
       TAB @ (if IncludeHTTP then ''"net/http"'' else '''') @ ''\<newline>'',
       TAB @ ''"os"\<newline>'',
       TAB @ ''"path"\<newline>'',
       TAB @ ''"strings"\<newline>'',
       TAB @ ''"time"\<newline>'',
       '')\<newline>'',
       ''\<newline>'',
       ''type '' @ prefix @ ''File struct {\<newline>'',
       TAB @ ''*bytes.Reader\<newline>'',
       TAB @ ''fi '' @ prefix @ ''FI\<newline>'',
       ''}\<newline>'',
       ''\<newline>'',
       ''func (f *'' @ prefix @ ''File) Close() error { return nil }\<newline>'',
       ''func (f *'' @ prefix @ ''File) Readdir(count int) ([]os.FileInfo, error) { return nil, errors.New("Denied")}\<newline>'',
       ''func (f *'' @ prefix @ ''File) Stat() (os.FileInfo, error) { return f.fi, nil }\<newline>'',
       ''\<newline>'',
       ''type '' @ prefix @ ''FI struct {\<newline>'',
       TAB @ ''name  string\<newline>'',
       TAB @ ''size  int64\<newline>'',
       TAB @ ''mode  os.FileMode\<newline>'',
       TAB @ ''ftime time.Time\<newline>'',
       ''}\<newline>'',
       ''\<newline>'',
       ''func (fi '' @ prefix @ ''FI) Name() string       { return fi.name }\<newline>'',
       ''func (fi '' @ prefix @ ''FI) Close() error       { return nil }\<newline>'',
       ''func (fi '' @ prefix @ ''FI) Size() int64        { return fi.size }\<newline>'',
       ''func (fi '' @ prefix @ ''FI) Mode() os.FileMode  { return fi.mode }\<newline>'',
       ''func (fi '' @ prefix @ ''FI) ModTime() time.Time { return fi.ftime }\<newline>'',
       ''func (fi '' @ prefix @ ''FI) IsDir() bool        { return false }\<newline>'',
       ''func (fi '' @ prefix @ ''FI) Sys() interface{}   { return nil }\<newline>'',
       ''\<newline>'',
       ''type '' @ prefix @ ''T struct {\<newline>'',
       TAB @ ''filenames []string\<newline>'',
       TAB @ ''files     map[string]struct {\<newline>'',
       TAB @ TAB @ ''ts int64\<newline>'',
       TAB @ TAB @ ''offset int\<newline>'',
       TAB @ TAB @ ''size   int\<newline>'',
       TAB @ ''}\<newline>'',
       TAB @ ''data ['' @ fmt_d DataSize @ '']byte\<newline>'',
       ''}\<newline>'',
       ''\<newline>'',
       ''func (fs *'' @ prefix @ ''T) Filenames() []string { return fs.filenames }\<newline>'',
       ''\<newline>'',
       ''// Open returns a bytes.Reader for the given filename.\<newline>'',
       (if IncludeHTTP then ''func (fs *'' @ prefix @ ''T) Open(filename string) (http.File, error) {'' else ''func (fs *'' @ prefix @ ''T) Open(filename string) (*'' @ prefix @ ''File, error) {'') @ ''\<newline>'',
       TAB @ ''filename = strings.TrimPrefix(filename, "/")\<newline>'',
       TAB @ ''entry, ok := fs.files[filename]\<newline>'',
       TAB @ ''if !ok {\<newline>'',
       TAB @ TAB @ ''return nil, os.ErrNotExist\<newline>'',
       TAB @ ''}\<newline>'',
       TAB @ ''b := fs.data[entry.offset : entry.offset+entry.size]\<newline>'',
       TAB @ ''return &'' @ prefix @ ''File{\<newline>'',
       TAB @ TAB @ ''Reader: bytes.NewReader(b),\<newline>'',
       TAB @ TAB @ ''fi:     '' @ prefix @ ''FI{name: path.Base(filename), size: int64(entry.size), mode: os.ModePerm, ftime: time.Unix(entry.ts, 0)},\<newline>'',
       TAB @ ''}, nil\<newline>'',
       ''}\<newline>'',
       ''\<newline>'']\<close>

text \<open>One line of the initialiser of \<^verbatim>\<open>files\<close>.\<close>

definition entry_line :: "(string \<Rightarrow> string) \<Rightarrow> string \<times> entry \<Rightarrow> string" where
  "entry_line quote fe =
     ''        '' @ quote (fst fe) @ '': {'' @ fmt_d (entry_ts (snd fe)) @ '', ''
       @ fmt_d (entry_offset (snd fe)) @ '', '' @ fmt_d (entry_size (snd fe)) @ ''},\<newline>''"

text \<open>
  All that \<^verbatim>\<open>generate\<close> writes to \<^verbatim>\<open>w\<close> after \<^verbatim>\<open>sort.Strings(filenames)\<close>, in order. The
  code does not look at the results of these writes. The template does not use the field
  \<^verbatim>\<open>Filenames\<close> of its data.
\<close>

definition render :: "system \<Rightarrow> string \<Rightarrow> string \<Rightarrow> bool \<Rightarrow> gen \<Rightarrow> string" where
  "render sys pkg prefix incHTTP g =
     header pkg (Now sys) incHTTP prefix (offset g)
     @ ''var '' @ prefix @ '' = &'' @ prefix @ ''T{\<newline>''
     @ ''    filenames: '' @ fmt_strings (Quote sys) (filenames g) @ '',\<newline>''
     @ ''    files: map[string]struct{ts int64; offset int; size int}{\<newline>''
     @ concat (map (entry_line (Quote sys)) (map_range sys (filemap g)))
     @ ''    },\<newline>''
     @ ''    data: ['' @ fmt_d (offset g) @ '']byte{\<newline>''
     @ databuf g
     @ ''    },\<newline>''
     @ ''}\<newline>''"

text \<open>
  \<^verbatim>\<open>generate\<close>, with the contents of the destination \<^verbatim>\<open>w\<close> before and after, and the flag
  \<^verbatim>\<open>*incHTTP\<close>. The result is \<open>None\<close> when a reader gives no result. \<^verbatim>\<open>sort.Strings\<close>
  sorts \<^verbatim>\<open>filenames\<close> in place, in the order of Go's \<^verbatim>\<open><\<close> on strings, which compares byte
  by byte.
\<close>

definition generate ::
  "system \<Rightarrow> bool \<Rightarrow> string \<Rightarrow> string \<Rightarrow> string \<Rightarrow> string list \<Rightarrow> (string \<times> error option) option" where
  "generate sys incHTTP w pkg prefix globs =
     (case process_globs sys gen_init globs of
        None \<Rightarrow> None
      | Some (Inl err) \<Rightarrow> Some (w, Some err)
      | Some (Inr g) \<Rightarrow>
          if fcount g = 0 then Some (w, Some (ErrorString ''No files found''))
          else Some (w @ render sys pkg prefix incHTTP (g\<lparr>filenames := sort (filenames g)\<rparr>), None))"

subsection \<open>Notions used to state the properties of generate\<close>

text \<open>The paths the patterns resolve to, in the order in which the loops meet them.\<close>

fun resolved :: "system \<Rightarrow> string list \<Rightarrow> string list" where
  "resolved sys [] = []"
| "resolved sys (pattern # globs) =
     (case Glob sys pattern of Inl err \<Rightarrow> [] | Inr names \<Rightarrow> names @ resolved sys globs)"

text \<open>The name a path is recorded under.\<close>

definition recorded_name :: "string \<Rightarrow> string" where
  "recorded_name name = TrimPrefix name ''/''"

text \<open>
  The entries in the order in which the loop records them: after each round, the entry that
  \<^verbatim>\<open>filemap\<close> holds under the name of the file just processed.
\<close>

fun recorded :: "system \<Rightarrow> gen \<Rightarrow> string list \<Rightarrow> (string \<times> entry) list" where
  "recorded sys g [] = []"
| "recorded sys g (name # names) =
     (case process_file sys g name of
        Some (Inr g') \<Rightarrow>
          (case map_of (filemap g') (recorded_name name) of
             Some e \<Rightarrow> (recorded_name name, e) # recorded sys g' names
           | None \<Rightarrow> [])
      | _ \<Rightarrow> [])"

text \<open>
  The number of bytes \<^verbatim>\<open>fmtBytes\<close> reads from the file at a path, and the time recorded for
  it: the modification time, or 0 when \<^verbatim>\<open>Stat\<close> fails.
\<close>

definition file_size :: "system \<Rightarrow> string \<Rightarrow> int" where
  "file_size sys name =
     (case os_Open sys name of
        Inl err \<Rightarrow> 0
      | Inr f \<Rightarrow> int (length (concat (consumed (Read f)))))"

definition file_ts :: "system \<Rightarrow> string \<Rightarrow> int" where
  "file_ts sys name =
     (case os_Open sys name of
        Inl err \<Rightarrow> 0
      | Inr f \<Rightarrow> (case Stat f of Inl err \<Rightarrow> 0 | Inr t \<Rightarrow> t))"

text \<open>
  Entries laid out from the offset \<open>off\<close>: one for each path, in order, each as large as its
  file and starting where the one before it ends.
\<close>

fun layout :: "system \<Rightarrow> int \<Rightarrow> string list \<Rightarrow> (string \<times> entry) list" where
  "layout sys off [] = []"
| "layout sys off (name # names) =
     (recorded_name name,
      \<lparr>entry_ts = file_ts sys name, entry_offset = off, entry_size = file_size sys name\<rparr>)
     # layout sys (off + file_size sys name) names"

text \<open>
  Entries that lie one after the other from \<open>a\<close> to \<open>b\<close>: each starts where the one before
  it ends, and none has a negative size.
\<close>

fun contiguous :: "int \<Rightarrow> entry list \<Rightarrow> int \<Rightarrow> bool" where
  "contiguous a [] b = (a = b)"
| "contiguous a (e # es) b =
     (entry_offset e = a \<and> 0 \<le> entry_size e \<and> contiguous (a + entry_size e) es b)"

text \<open>What one round of the loop appends to \<^verbatim>\<open>databuf\<close> for a path: the comment and the lines.\<close>

definition file_section :: "system \<Rightarrow> string \<Rightarrow> string" where
  "file_section sys name =
     (case os_Open sys name of
        Inl err \<Rightarrow> []
      | Inr f \<Rightarrow> ''\<newline>    // '' @ name @ ''\<newline>'' @ encoded (consumed (Read f)))"

text \<open>\<^verbatim>\<open>strings.Contains\<close>.\<close>

definition Contains :: "string \<Rightarrow> string \<Rightarrow> bool" where
  "Contains s substr = list_ex (\<lambda>i. take (length substr) (drop i s) = substr) [0..<Suc (length s)]"

text \<open>
  A small world for concrete runs: \<^verbatim>\<open>a.txt\<close> holds the bytes 1, 2, 3 and was modified at
  time 5, \<^verbatim>\<open>b.txt\<close> is empty and its \<^verbatim>\<open>Stat\<close> fails; the pattern \<^verbatim>\<open>[\<close> is malformed. The
  names have no character that \<^verbatim>\<open>strconv.Quote\<close> escapes.
\<close>

definition example_Open :: "string \<Rightarrow> error + os_File" where
  "example_Open name =
     (if name = ''a.txt'' then
        Inr \<lparr>Read = [([1, 2, 3], None), ([], Some EOF)], Stat = Inr 5\<rparr>
      else if name = ''b.txt'' then
        Inr \<lparr>Read = [([], Some EOF)], Stat = Inl (ErrorString ''stat b.txt: input/output error'')\<rparr>
      else Inl ErrNotExist)"

definition example_Glob :: "string \<Rightarrow> error + string list" where
  "example_Glob pattern =
     (if pattern = ''['' then Inl ErrBadPattern
      else if pattern = ''a.txt'' then Inr [''a.txt'']
      else if pattern = ''b.txt'' then Inr [''b.txt'']
      else if pattern = ''*.txt'' then Inr [''a.txt'', ''b.txt'']
      else Inr [])"

definition example_sys :: system where
  "example_sys =
     \<lparr>Glob = example_Glob, os_Open = example_Open,
      Quote = (\<lambda>s. [CHR 0x22] @ s @ [CHR 0x22]),
      Now = ''Tue Nov  3 10:00:00 UTC 2026'',
      map_range = (\<lambda>al. al)\<rparr>"

text \<open>
  A world whose working directory is the root: the paths \<^verbatim>\<open>a.txt\<close> and \<^verbatim>\<open>/a.txt\<close> are the
  same file, which holds the bytes 1, 2, 3.
\<close>

definition root_Open :: "string \<Rightarrow> error + os_File" where
  "root_Open name =
     (if name = ''a.txt'' \<or> name = ''/a.txt'' then
        Inr \<lparr>Read = [([1, 2, 3], None), ([], Some EOF)], Stat = Inr 5\<rparr>
      else Inl ErrNotExist)"

definition root_Glob :: "string \<Rightarrow> error + string list" where
  "root_Glob pattern =
     (if pattern = ''a.txt'' then Inr [''a.txt'']
      else if pattern = ''/a.txt'' then Inr [''/a.txt'']
      else Inr [])"

definition root_sys :: system where
  "root_sys =
     \<lparr>Glob = root_Glob, os_Open = root_Open,
      Quote = (\<lambda>s. [CHR 0x22] @ s @ [CHR 0x22]),
      Now = ''Tue Nov  3 10:00:00 UTC 2026'',
      map_range = (\<lambda>al. al)\<rparr>"

subsection \<open>The generated Open\<close>

text \<open>
  The types the generated file declares (for the prefix \<^verbatim>\<open>assets\<close>): \<^verbatim>\<open>assetsT\<close>,
  \<^verbatim>\<open>assetsFI\<close> and \<^verbatim>\<open>assetsFile\<close>, whose reader is given by the bytes it reads.
\<close>

record assetsT =
  T_filenames :: "string list"
  files :: "string \<rightharpoonup> entry"
  data :: "u8 list"

record assetsFI =
  fi_name :: string
  fi_size :: int
  fi_mode :: nat
  fi_ftime :: int

record assetsFile =
  Reader :: "u8 list"
  fi :: assetsFI

text \<open>\<^verbatim>\<open>path.Base\<close>: the last element of a path, after its trailing slashes are removed.\<close>

definition path_Base :: "string \<Rightarrow> string" where
  "path_Base p =
     (if p = [] then ''.''
      else (let q = rev (dropWhile (\<lambda>c. c = CHR ''/'') (rev p));
                r = rev (takeWhile (\<lambda>c. c \<noteq> CHR ''/'') (rev q))
            in if r = [] then ''/'' else r))"

definition ModePerm :: nat where
  "ModePerm = 511"

text \<open>A call either returns or panics: a slice expression out of range panics.\<close>

datatype 'a outcome = Returns 'a | Panics

definition Open :: "assetsT \<Rightarrow> string \<Rightarrow> (error + assetsFile) outcome" where
  "Open fs filename =
     (let filename = TrimPrefix filename ''/'' in
      case files fs filename of
        None \<Rightarrow> Returns (Inl ErrNotExist)
      | Some entry \<Rightarrow>
          if 0 \<le> entry_offset entry \<and> entry_offset entry \<le> entry_offset entry + entry_size entry
             \<and> entry_offset entry + entry_size entry \<le> int (length (data fs))
          then Returns (Inr \<lparr>Reader = take (nat (entry_size entry))
                                        (drop (nat (entry_offset entry)) (data fs)),
                              fi = \<lparr>fi_name = path_Base filename, fi_size = entry_size entry,
                                     fi_mode = ModePerm, fi_ftime = entry_ts entry\<rparr>\<rparr>)
          else Panics)"

text \<open>
  The value the generated initialiser denotes after a run on \<^verbatim>\<open>a.txt\<close> and \<^verbatim>\<open>b.txt\<close> of the
  small world.
\<close>

definition example_assets :: assetsT where
  "example_assets =
     \<lparr>T_filenames = [''a.txt'', ''b.txt''],
      files = [''a.txt'' \<mapsto> \<lparr>entry_ts = 5, entry_offset = 0, entry_size = 3\<rparr>,
               ''b.txt'' \<mapsto> \<lparr>entry_ts = 0, entry_offset = 3, entry_size = 0\<rparr>],
      data = [1, 2, 3]\<rparr>"

section \<open>Properties of fmtBytes\<close>

lemma nibble_cases: "n < 16 \<Longrightarrow> n \<in> {0, 1, 2, 3, 4, 5, 6, 7, 8, 9, 10, 11, 12, 13, 14, 15::nat}"
  by simp arith

lemma hexval_digit: "n < 16 \<Longrightarrow> hexval (digits ! n) = Some n"
  using nibble_cases [of n] by (auto simp: hexval_def digits_def)

lemma digit_not_sep: "n < 16 \<Longrightarrow> \<not> is_sep (digits ! n)"
  using nibble_cases [of n] by (auto simp: is_sep_def digits_def)

lemma hi_nibble: "unat (drop_bit 4 (b::u8)) = unat b div 16"
  by (simp add: unat_drop_bit_eq drop_bit_eq_div unat_div)

lemma lo_nibble: "unat ((b::u8) AND 0xf) = unat b mod 16"
proof -
  have "(0xf :: u8) = mask 4" by (simp add: mask_eq_exp_minus_1)
  then have "b AND 0xf = take_bit 4 b" by (simp add: take_bit_eq_mask)
  then show ?thesis by (simp add: unsigned_take_bit_eq take_bit_eq_mod unat_mod)
qed

lemma hi_lt: "unat (drop_bit 4 (b::u8)) < 16"
proof -
  have "unat b < 256" using unsigned_less [of b] by simp
  then show ?thesis unfolding hi_nibble by simp
qed

lemma lo_lt: "unat ((b::u8) AND 0xf) < 16"
  unfolding lo_nibble by simp

lemma parse_tok: "parse_token (tok b) = Some b"
proof -
  have "(of_nat (16 * (unat b div 16) + unat b mod 16) :: u8) = b" by simp
  then show ?thesis
    by (simp add: tok_def hexval_digit hi_lt lo_lt hi_nibble [symmetric] lo_nibble [symmetric])
qed

lemma tokens_fmt_byte: "tokens_from [] (fmt_byte b @ rest) = tok b # tokens_from [] rest"
  using digit_not_sep [OF hi_lt, of b] digit_not_sep [OF lo_lt, of b]
  by (simp add: fmt_byte_def tok_def is_sep_def)

lemma tokens_bytes: "tokens_from [] (concat (map fmt_byte bs) @ rest) = map tok bs @ tokens_from [] rest"
  by (induction bs) (simp_all add: tokens_fmt_byte)

lemma tokens_fbuf: "tokens_from [] (fbuf chunk @ rest) = map tok chunk @ tokens_from [] rest"
  using tokens_bytes [of chunk "''\<newline>'' @ rest"]
  by (simp add: fbuf_def is_sep_def)

lemma tokens_encoded: "tokens (encoded chunks) = map tok (concat chunks)"
proof -
  have "tokens_from [] (encoded chunks @ rest) = map tok (concat chunks) @ tokens_from [] rest" for rest
    unfolding encoded_def
    by (induction chunks) (simp_all add: tokens_fbuf)
  from this [of "[]"] show ?thesis by (simp add: tokens_def)
qed

lemma decode_encoded: "map parse_token (tokens (encoded chunks)) = map Some (concat chunks)"
  by (simp add: tokens_encoded parse_tok)

lemma write_block_Buffer:
  "write_block Buffer_Write chunk w br bw =
     (w @ encoded [chunk], br + int (length chunk), bw + int (length (encoded [chunk])), None)"
  by (simp add: write_block_def Buffer_Write_def encoded_def)

lemma encoded_Cons: "encoded (c # cs) = encoded [c] @ encoded cs"
  by (simp add: encoded_def)

lemma fmtBytes_loop_Buffer:
  "fmtBytes_loop Buffer_Write rd w br bw =
     (case read_error rd of
        None \<Rightarrow> None
      | Some e \<Rightarrow>
          Some ((br + int (length (concat (consumed rd))),
                 bw + int (length (encoded (consumed rd))),
                 (if e = EOF then None else Some e)),
                w @ encoded (consumed rd)))"
proof (induction rd arbitrary: w br bw)
  case Nil
  show ?case by simp
next
  case (Cons ev rd)
  obtain chunk rerr where ev: "ev = (chunk, rerr)" by (cases ev)
  show ?case
  proof (cases rerr)
    case None
    then show ?thesis
      using Cons.IH [of "w @ encoded [chunk]"] encoded_Cons [of chunk "consumed rd"]
      by (simp add: ev write_block_Buffer split: option.splits)
  next
    case (Some e)
    then show ?thesis
      by (cases e) (simp_all add: ev write_block_Buffer)
  qed
qed

lemma consumed_append_EOF:
  "\<forall>ev \<in> set pre. snd ev = None \<Longrightarrow> consumed (pre @ (c, Some e) # rest) = map fst pre @ [c]"
  by (induction pre) auto

lemma read_error_append:
  "\<forall>ev \<in> set pre. snd ev = None \<Longrightarrow> read_error (pre @ (c, Some e) # rest) = Some e"
  by (induction pre) auto

text \<open>
  Claim C1. Whatever the chunks in which a reader delivers the bytes \<open>bs\<close> (chunks of at
  most 16 bytes, some possibly empty, the last one coming with \<^verbatim>\<open>io.EOF\<close>), \<^verbatim>\<open>fmtBytes\<close>
  on a buffer returns without error having read \<open>length bs\<close> bytes, and the text it has
  appended, cut into tokens and parsed, gives back exactly the bytes \<open>bs\<close>, one token for
  each byte.
\<close>

theorem fmtBytes_roundtrip:
  assumes "\<forall>ev \<in> set pre. snd ev = None"
    and "\<forall>ev \<in> set (pre @ [(c, Some EOF)]). length (fst ev) \<le> 16"
    and "bs = concat (map fst pre) @ c"
  shows "let text = encoded (map fst pre @ [c]) in
           fmtBytes Buffer_Write (pre @ (c, Some EOF) # rest) w
             = Some ((int (length bs), int (length text), None), w @ text) \<and>
           map parse_token (tokens text) = map Some bs \<and>
           length (tokens text) = length bs"
proof -
  have "map parse_token (tokens (encoded (map fst pre @ [c]))) = map Some bs"
    using assms(3) by (simp add: decode_encoded)
  moreover from this have "length (tokens (encoded (map fst pre @ [c]))) = length bs"
    by (metis length_map)
  ultimately show ?thesis
    using assms(1,3)
    by (simp add: fmtBytes_def fmtBytes_loop_Buffer consumed_append_EOF read_error_append)
qed

theorem fmtBytes_roundtrip_witness:
  "fmtBytes Buffer_Write [([0x01, 0xab], None), ([], None), ([0xff], Some EOF)] ''''
     = Some ((3, 26, None), ''    0x01, 0xab,\<newline>    0xff,\<newline>'') \<and>
   map parse_token (tokens ''    0x01, 0xab,\<newline>    0xff,\<newline>'') = [Some 0x01, Some 0xab, Some 0xff]"
  using fmtBytes_roundtrip [of "[([0x01, 0xab], None), ([], None)]" "[0xff]" "[0x01, 0xab, 0xff]" "[]" "[]"]
  by (simp add: encoded_def fbuf_def fmt_byte_def digits_def Let_def)

lemma fmtBytes_loop_prefix:
  assumes "\<forall>ev \<in> set pre. snd ev = None"
    and "fmtBytes_loop out (pre @ [([], Some EOF)]) w br bw = Some ((br1, bw1, None), w1)"
  shows "fmtBytes_loop out (pre @ rd) w br bw = fmtBytes_loop out rd w1 br1 bw1 \<and>
         br1 = br + int (length (concat (map fst pre)))"
  using assms
proof (induction pre arbitrary: w br bw)
  case Nil
  then show ?case by (simp add: write_block_def)
next
  case (Cons ev pre)
  obtain chunk where ev: "ev = (chunk, None)" using Cons.prems(1) by (cases ev) auto
  obtain w' br' bw' werr where wb: "write_block out chunk w br bw = (w', br', bw', werr)"
    by (metis prod_cases4)
  show ?case
  proof (cases werr)
    case None
    have br': "br' = br + int (length chunk)"
      using wb None by (auto simp: write_block_def split: if_splits prod.splits option.splits)
    from Cons.prems have "\<forall>ev \<in> set pre. snd ev = None"
      and "fmtBytes_loop out (pre @ [([], Some EOF)]) w' br' bw' = Some ((br1, bw1, None), w1)"
      by (simp_all add: ev wb None)
    from Cons.IH [OF this] show ?thesis
      by (simp add: ev wb None br')
  next
    case (Some e)
    with Cons.prems(2) show ?thesis by (simp add: ev wb)
  qed
qed

text \<open>
  Claim C10. When the rounds over the events \<open>pre\<close> have succeeded (run on their own and
  followed by a clean end of file they return \<open>bytesRead = br\<close>,
  \<open>bytesWritten = bw\<close>) and the write of the next chunk fails, reporting \<open>wn\<close> characters
  written, \<^verbatim>\<open>fmtBytes\<close> returns the write error with \<open>bytesRead = br\<close>, the bytes of
  \<open>pre\<close> alone without those of the chunk just read, and \<open>bytesWritten = bw + wn\<close>.
\<close>

theorem fmtBytes_write_error:
  assumes "\<forall>ev \<in> set pre. snd ev = None"
    and "fmtBytes out (pre @ [([], Some EOF)]) w = Some ((br, bw, None), w1)"
    and "chunk \<noteq> []"
    and "out w1 (fbuf chunk) = ((wn, Some werr), w2)"
  shows "fmtBytes out (pre @ (chunk, rerr) # rest) w = Some ((br, bw + wn, Some werr), w2) \<and>
         br = int (length (concat (map fst pre)))"
  using fmtBytes_loop_prefix [OF assms(1) assms(2) [unfolded fmtBytes_def], of "(chunk, rerr) # rest"]
    assms(3,4)
  by (simp add: fmtBytes_def write_block_def)

theorem fmtBytes_write_error_witness:
  "fmtBytes Limited_Write [([1, 2, 3], None), ([4, 5, 6], None), ([7], Some EOF)] ''''
     = Some ((3, 40, Some (ErrorString ''short write'')),
             ''    0x01, 0x02, 0x03,\<newline>    0x04, 0x05, 0x'')"
  using fmtBytes_write_error [of "[([1, 2, 3], None)]" Limited_Write "[]" 3 22
      "''    0x01, 0x02, 0x03,\<newline>''" "[4, 5, 6]" 18 "ErrorString ''short write''"
      "''    0x01, 0x02, 0x03,\<newline>    0x04, 0x05, 0x''" None "[([7], Some EOF)]"]
  by (simp add: fmtBytes_def write_block_def Limited_Write_def fbuf_def fmt_byte_def digits_def)

section \<open>The loops of generate\<close>

lemma process_file_Inr:
  assumes "process_file sys g name = Some (Inr g')"
  shows "\<exists>f br. os_Open sys name = Inr f \<and> read_error (Read f) = Some EOF \<and>
           br = int (length (concat (consumed (Read f)))) \<and>
           offset g' = offset g + br \<and>
           fcount g' = fcount g + 1 \<and>
           filenames g' = filenames g @ [recorded_name name] \<and>
           filemap g' = AList.update (recorded_name name)
             \<lparr>entry_ts = (case Stat f of Inr t \<Rightarrow> t | Inl err \<Rightarrow> 0),
              entry_offset = offset g, entry_size = br\<rparr> (filemap g) \<and>
           databuf g' = databuf g @ file_section sys name"
proof (cases "os_Open sys name")
  case (Inl err)
  with assms show ?thesis by (simp add: process_file_def)
next
  case (Inr f)
  show ?thesis
  proof (cases "read_error (Read f)")
    case None
    with assms Inr show ?thesis
      by (simp add: process_file_def fmtBytes_def fmtBytes_loop_Buffer Let_def)
  next
    case (Some e)
    with assms Inr show ?thesis
      by (auto simp: process_file_def fmtBytes_def fmtBytes_loop_Buffer Let_def
          recorded_name_def file_section_def split: if_splits)
  qed
qed

lemma map_of_update_same: "map_of (AList.update k v al) k = Some v"
  by (simp add: update_conv)

lemma recorded_Cons:
  assumes "process_file sys g name = Some (Inr g')"
  shows "\<exists>e. recorded sys g (name # names) = (recorded_name name, e) # recorded sys g' names \<and>
             map_of (filemap g') (recorded_name name) = Some e \<and>
             filemap g' = AList.update (recorded_name name) e (filemap g) \<and>
             entry_offset e = offset g \<and> offset g' = offset g + entry_size e \<and> 0 \<le> entry_size e"
proof -
  from process_file_Inr [OF assms] obtain f :: os_File and br where
    br: "br = int (length (concat (consumed (Read f))))" "offset g' = offset g + br"
    and fm: "filemap g' = AList.update (recorded_name name)
             \<lparr>entry_ts = (case Stat f of Inr t \<Rightarrow> t | Inl err \<Rightarrow> 0),
              entry_offset = offset g, entry_size = br\<rparr> (filemap g)"
    by blast
  let ?e = "\<lparr>entry_ts = (case Stat f of Inr t \<Rightarrow> t | Inl err \<Rightarrow> 0),
              entry_offset = offset g, entry_size = br\<rparr>"
  have "map_of (filemap g') (recorded_name name) = Some ?e"
    unfolding fm by (rule map_of_update_same)
  then have "recorded sys g (name # names) = (recorded_name name, ?e) # recorded sys g' names"
    using assms by simp
  moreover have "0 \<le> entry_size ?e" using br(1) by simp
  moreover have "entry_offset ?e = offset g" by simp
  moreover have "offset g' = offset g + entry_size ?e" using br(2) by simp
  ultimately show ?thesis
    using fm \<open>map_of (filemap g') (recorded_name name) = Some ?e\<close> by blast
qed

lemma process_names_fields:
  "process_names sys g names = Some (Inr g') \<Longrightarrow>
     fcount g' = fcount g + int (length names) \<and>
     filenames g' = filenames g @ map recorded_name names \<and>
     databuf g' = databuf g @ concat (map (file_section sys) names) \<and>
     map fst (recorded sys g names) = map recorded_name names \<and>
     offset g' = offset g + sum_list (map (entry_size \<circ> snd) (recorded sys g names)) \<and>
     filemap g' = foldl (\<lambda>al ke. AList.update (fst ke) (snd ke) al) (filemap g) (recorded sys g names)"
proof (induction names arbitrary: g)
  case Nil
  then show ?case by simp
next
  case (Cons name names)
  from Cons.prems obtain g1 where pf: "process_file sys g name = Some (Inr g1)"
    and rest: "process_names sys g1 names = Some (Inr g')"
    by (auto split: option.splits sum.splits)
  from process_file_Inr [OF pf] have f1: "fcount g1 = fcount g + 1"
    "filenames g1 = filenames g @ [recorded_name name]"
    "databuf g1 = databuf g @ file_section sys name" by auto
  from recorded_Cons [OF pf, of names] obtain e where
    e: "recorded sys g (name # names) = (recorded_name name, e) # recorded sys g1 names"
      "filemap g1 = AList.update (recorded_name name) e (filemap g)"
      "offset g1 = offset g + entry_size e"
    by blast
  from Cons.IH [OF rest] show ?case
    unfolding e(1) by (simp add: f1 e(2,3))
qed

lemma process_names_append:
  "process_names sys g (xs @ ys) =
     (case process_names sys g xs of
        None \<Rightarrow> None
      | Some (Inl err) \<Rightarrow> Some (Inl err)
      | Some (Inr g2) \<Rightarrow> process_names sys g2 ys)"
proof (induction xs arbitrary: g)
  case Nil
  show ?case by simp
next
  case (Cons x xs)
  show ?case
  proof (cases "process_file sys g x")
    case None
    then show ?thesis by simp
  next
    case (Some r)
    then show ?thesis using Cons.IH by (cases r) simp_all
  qed
qed

lemma process_globs_resolved:
  "process_globs sys g globs = Some (Inr g') \<Longrightarrow>
     process_names sys g (resolved sys globs) = Some (Inr g') \<and>
     (\<forall>p \<in> set globs. \<exists>names. Glob sys p = Inr names)"
proof (induction globs arbitrary: g)
  case Nil
  then show ?case by simp
next
  case (Cons p globs)
  from Cons.prems obtain names where p: "Glob sys p = Inr names"
    by (cases "Glob sys p") simp_all
  from Cons.prems p obtain r where r: "process_names sys g names = Some r"
    by (cases "process_names sys g names") simp_all
  from Cons.prems p r obtain g1 where g1: "r = Inr g1"
    by (cases r) simp_all
  from Cons.prems p r g1 have rest: "process_globs sys g1 globs = Some (Inr g')"
    by simp
  from Cons.IH [OF rest] show ?case
    by (simp add: p r g1 process_names_append)
qed

lemma contiguous_nth:
  "contiguous a es b \<Longrightarrow>
     (es \<noteq> [] \<longrightarrow> entry_offset (es ! 0) = a) \<and>
     (\<forall>i. Suc i < length es \<longrightarrow>
        entry_offset (es ! i) + entry_size (es ! i) = entry_offset (es ! Suc i)) \<and>
     (\<forall>e \<in> set es. 0 \<le> entry_size e) \<and>
     a + sum_list (map entry_size es) = b"
proof (induction es arbitrary: a)
  case Nil
  then show ?case by simp
next
  case (Cons e es)
  from Cons.prems have e: "entry_offset e = a" "0 \<le> entry_size e"
    and rest: "contiguous (a + entry_size e) es b" by simp_all
  note IH = Cons.IH [OF rest]
  have "entry_offset ((e # es) ! i) + entry_size ((e # es) ! i) = entry_offset ((e # es) ! Suc i)"
    if "Suc i < length (e # es)" for i
  proof (cases i)
    case 0
    with that IH e show ?thesis by (cases es) simp_all
  next
    case (Suc j)
    with that IH show ?thesis by simp
  qed
  with IH e show ?case by (simp add: add.assoc)
qed

lemma recorded_contiguous:
  "process_names sys g names = Some (Inr g') \<Longrightarrow>
     contiguous (offset g) (map snd (recorded sys g names)) (offset g')"
proof (induction names arbitrary: g)
  case Nil
  then show ?case by simp
next
  case (Cons name names)
  from Cons.prems obtain r where r: "process_file sys g name = Some r"
    by (cases "process_file sys g name") simp_all
  from Cons.prems r obtain g1 where g1: "r = Inr g1" by (cases r) simp_all
  from Cons.prems r g1 have rest: "process_names sys g1 names = Some (Inr g')" by simp
  from recorded_Cons [OF r [unfolded g1], of names] obtain e where
    e: "recorded sys g (name # names) = (recorded_name name, e) # recorded sys g1 names"
      "entry_offset e = offset g" "offset g1 = offset g + entry_size e" "0 \<le> entry_size e"
    by blast
  from Cons.IH [OF rest] show ?case
    unfolding e(1) by (simp add: e(2,3,4))
qed

lemma map_of_foldl_update:
  "map_of (foldl (\<lambda>al ke. AList.update (fst ke) (snd ke) al) m es) n =
     (if n \<in> fst ` set es then Some (snd (last (filter (\<lambda>ke. fst ke = n) es))) else map_of m n)"
proof (induction es rule: rev_induct)
  case Nil
  show ?case by simp
next
  case (snoc x es)
  then show ?case by (auto simp: update_conv)
qed

lemma distinct_foldl_update:
  "distinct (map fst m) \<Longrightarrow>
     distinct (map fst (foldl (\<lambda>al ke. AList.update (fst ke) (snd ke) al) m es))"
  by (induction es rule: rev_induct) (simp_all add: distinct_update)

lemma filter_key_distinct:
  "distinct (map fst al) \<Longrightarrow> map_of al n = Some e \<Longrightarrow> filter (\<lambda>ke. fst ke = n) al = [(n, e)]"
proof (induction al)
  case Nil
  then show ?case by simp
next
  case (Cons a al)
  show ?case
  proof (cases "fst a = n")
    case True
    with Cons.prems have "snd a = e" by (cases a) simp
    moreover have "filter (\<lambda>ke. fst ke = n) al = []"
    proof -
      from Cons.prems(1) have "fst a \<notin> fst ` set al" by simp
      with True have "\<forall>x \<in> set al. fst x \<noteq> n" by (metis imageI)
      then show ?thesis by (simp add: filter_empty_conv)
    qed
    ultimately show ?thesis using True by (cases a) simp
  next
    case False
    with Cons show ?thesis by (cases a) simp
  qed
qed

lemma count_list_map_inj:
  "\<forall>q \<in> set xs. f q = f p \<longrightarrow> q = p \<Longrightarrow> count_list (map f xs) (f p) = count_list xs p"
  by (induction xs) auto

lemma count_list_sort: "count_list (sort xs) n = count_list xs n"
proof -
  have "count (mset (sort xs)) n = count (mset xs) n" by simp
  then show ?thesis by (simp only: count_mset)
qed

lemma generate_success:
  "generate sys incHTTP w pkg prefix globs = Some (w', None) \<Longrightarrow>
     \<exists>g. process_globs sys gen_init globs = Some (Inr g) \<and> fcount g \<noteq> 0 \<and>
         w' = w @ render sys pkg prefix incHTTP (g\<lparr>filenames := sort (filenames g)\<rparr>)"
  by (auto simp: generate_def split: option.splits sum.splits if_splits)

lemma update_new_key: "k \<notin> fst ` set al \<Longrightarrow> AList.update k v al = al @ [(k, v)]"
  by (induction al) auto

lemma foldl_update_distinct:
  "distinct (map fst (m @ es)) \<Longrightarrow>
     foldl (\<lambda>al ke. AList.update (fst ke) (snd ke) al) m es = m @ es"
proof (induction es arbitrary: m)
  case Nil
  show ?case by simp
next
  case (Cons x es)
  from Cons.prems have new: "fst x \<notin> fst ` set m" by auto
  from Cons.prems have "distinct (map fst ((m @ [x]) @ es))" by auto
  from Cons.IH [OF this] show ?case
    by (simp add: update_new_key [OF new])
qed

text \<open>
  When every file that opens reaches the end of its data or an error after finitely many
  reads, \<^verbatim>\<open>generate\<close> returns.
\<close>

lemma process_file_returns:
  assumes "\<forall>name f. os_Open sys name = Inr f \<longrightarrow> read_error (Read f) \<noteq> None"
  shows "process_file sys g name \<noteq> None"
proof (cases "os_Open sys name")
  case (Inl err)
  then show ?thesis by (simp add: process_file_def)
next
  case (Inr f)
  with assms obtain e where "read_error (Read f) = Some e" by auto
  with Inr show ?thesis
    by (simp add: process_file_def fmtBytes_def fmtBytes_loop_Buffer Let_def)
qed

lemma process_names_returns:
  assumes "\<forall>name f. os_Open sys name = Inr f \<longrightarrow> read_error (Read f) \<noteq> None"
  shows "process_names sys g names \<noteq> None"
proof (induction names arbitrary: g)
  case Nil
  show ?case by simp
next
  case (Cons name names)
  from process_file_returns [OF assms, of g name] obtain r where
    r: "process_file sys g name = Some r" by auto
  show ?case using Cons.IH by (cases r) (simp_all add: r)
qed

lemma process_globs_returns:
  assumes "\<forall>name f. os_Open sys name = Inr f \<longrightarrow> read_error (Read f) \<noteq> None"
  shows "process_globs sys g globs \<noteq> None"
proof (induction globs arbitrary: g)
  case Nil
  show ?case by simp
next
  case (Cons p globs)
  show ?case
  proof (cases "Glob sys p")
    case (Inl err)
    then show ?thesis by simp
  next
    case (Inr names)
    from process_names_returns [OF assms, of g names] obtain r where
      r: "process_names sys g names = Some r" by auto
    show ?thesis using Cons.IH by (cases r) (simp_all add: Inr r)
  qed
qed

lemma generate_returns:
  assumes "\<forall>name f. os_Open sys name = Inr f \<longrightarrow> read_error (Read f) \<noteq> None"
  shows "\<exists>w' r. generate sys incHTTP w pkg prefix globs = Some (w', r)"
proof -
  from process_globs_returns [OF assms, of gen_init globs] obtain r where
    "process_globs sys gen_init globs = Some r" by auto
  then show ?thesis
    by (cases r) (simp_all add: generate_def)
qed

lemma recorded_layout:
  "process_names sys g names = Some (Inr g') \<Longrightarrow>
     recorded sys g names = layout sys (offset g) names"
proof (induction names arbitrary: g)
  case Nil
  show ?case by simp
next
  case (Cons name names)
  from Cons.prems obtain r where r: "process_file sys g name = Some r"
    by (cases "process_file sys g name") simp_all
  from Cons.prems r obtain g1 where g1: "r = Inr g1" by (cases r) simp_all
  from Cons.prems r g1 have rest: "process_names sys g1 names = Some (Inr g')" by simp
  from process_file_Inr [OF r [unfolded g1]] obtain f :: os_File where
    f: "os_Open sys name = Inr f"
    and off: "offset g1 = offset g + int (length (concat (consumed (Read f))))"
    and fm: "filemap g1 = AList.update (recorded_name name)
             \<lparr>entry_ts = (case Stat f of Inr t \<Rightarrow> t | Inl err \<Rightarrow> 0),
              entry_offset = offset g,
              entry_size = int (length (concat (consumed (Read f))))\<rparr> (filemap g)"
    by blast
  have look: "map_of (filemap g1) (recorded_name name) =
      Some \<lparr>entry_ts = file_ts sys name, entry_offset = offset g, entry_size = file_size sys name\<rparr>"
    unfolding fm by (simp add: map_of_update_same file_ts_def file_size_def f)
  have o: "offset g1 = offset g + file_size sys name"
    by (simp add: off file_size_def f)
  from Cons.IH [OF rest] show ?case
    by (simp add: r g1 look o)
qed

lemma layout_append:
  "layout sys off (pre @ post) =
     layout sys off pre @ layout sys (off + sum_list (map (file_size sys) pre)) post"
  by (induction pre arbitrary: off) (simp_all add: add.assoc)

lemma layout_keys: "map fst (layout sys off names) = map recorded_name names"
  by (induction names arbitrary: off) simp_all

lemma layout_sizes: "map (entry_size \<circ> snd) (layout sys off names) = map (file_size sys) names"
  by (induction names arbitrary: off) simp_all

lemma layout_last:
  assumes "recorded_name p \<notin> set (map recorded_name post)"
  shows "last (filter (\<lambda>ke. fst ke = recorded_name p) (layout sys off (pre @ p # post))) =
     (recorded_name p,
      \<lparr>entry_ts = file_ts sys p, entry_offset = off + sum_list (map (file_size sys) pre),
       entry_size = file_size sys p\<rparr>)"
proof -
  have "filter (\<lambda>ke. fst ke = recorded_name p) (layout sys off' post) = []" for off'
  proof -
    have "\<forall>ke \<in> set (layout sys off' post). fst ke \<noteq> recorded_name p"
      using assms layout_keys [of sys off' post] by (metis image_eqI list.set_map)
    then show ?thesis by (simp add: filter_empty_conv)
  qed
  then show ?thesis by (simp add: layout_append)
qed

lemma generate_output:
  assumes "generate sys incHTTP w pkg prefix globs = Some (w', None)"
  shows "\<exists>g. process_globs sys gen_init globs = Some (Inr g) \<and>
     w' = w @ header pkg (Now sys) incHTTP prefix (offset g)
            @ ''var '' @ prefix @ '' = &'' @ prefix @ ''T{\<newline>''
            @ ''    filenames: '' @ fmt_strings (Quote sys) (sort (filenames g)) @ '',\<newline>''
            @ ''    files: map[string]struct{ts int64; offset int; size int}{\<newline>''
            @ concat (map (entry_line (Quote sys)) (map_range sys (filemap g)))
            @ ''    },\<newline>''
            @ ''    data: ['' @ fmt_d (offset g) @ '']byte{\<newline>''
            @ databuf g
            @ ''    },\<newline>''
            @ ''}\<newline>''"
  using generate_success [OF assms] by (auto simp: render_def)

lemma ex_in_concat_here: "\<exists>pre post. concat ((a @ m) # xs) = pre @ m @ post"
  by (rule exI [of _ a], rule exI [of _ "concat xs"]) simp

lemma ex_in_concat_later:
  "\<exists>pre post. concat xs = pre @ m @ post \<Longrightarrow> \<exists>pre post. concat (x # xs) = pre @ m @ post"
proof -
  assume "\<exists>pre post. concat xs = pre @ m @ post"
  then obtain pre post where "concat xs = pre @ m @ post" by blast
  then have "concat (x # xs) = (x @ pre) @ m @ post" by simp
  then show ?thesis by blast
qed

lemma header_DataSize:
  "\<exists>pre post. header pkg t incHTTP prefix n = pre @ (''data ['' @ fmt_d n @ '']byte\<newline>'') @ post"
  unfolding header_def
  by (rule ex_in_concat_here | rule ex_in_concat_later)+

lemma map_of_permuted:
  assumes "mset ys = mset xs" and "distinct (map fst xs)"
  shows "map_of ys = map_of xs"
proof -
  from assms(1) have s: "set ys = set xs" by (rule mset_eq_setD)
  from assms(1) have "mset (map fst ys) = mset (map fst xs)" by simp
  then have "distinct (map fst ys) = distinct (map fst xs)" by (rule mset_eq_imp_distinct_iff)
  with assms(2) have "distinct (map fst ys)" by simp
  with assms(2) s show ?thesis by (simp add: map_of_inject_set)
qed

lemma generate_layout:
  assumes "generate sys incHTTP w pkg prefix globs = Some (w', None)"
  obtains g where "process_globs sys gen_init globs = Some (Inr g)"
    and "w' = w @ header pkg (Now sys) incHTTP prefix (offset g)
            @ ''var '' @ prefix @ '' = &'' @ prefix @ ''T{\<newline>''
            @ ''    filenames: '' @ fmt_strings (Quote sys) (sort (filenames g)) @ '',\<newline>''
            @ ''    files: map[string]struct{ts int64; offset int; size int}{\<newline>''
            @ concat (map (entry_line (Quote sys)) (map_range sys (filemap g)))
            @ ''    },\<newline>''
            @ ''    data: ['' @ fmt_d (offset g) @ '']byte{\<newline>''
            @ databuf g
            @ ''    },\<newline>''
            @ ''}\<newline>''"
    and "process_names sys gen_init (resolved sys globs) = Some (Inr g)"
    and "filenames g = map recorded_name (resolved sys globs)"
    and "fcount g = int (length (resolved sys globs))"
    and "databuf g = concat (map (file_section sys) (resolved sys globs))"
    and "offset g = sum_list (map (file_size sys) (resolved sys globs))"
    and "recorded sys gen_init (resolved sys globs) = layout sys 0 (resolved sys globs)"
    and "filemap g = foldl (\<lambda>al ke. AList.update (fst ke) (snd ke) al) []
           (layout sys 0 (resolved sys globs))"
proof -
  from generate_output [OF assms] obtain g where
    g: "process_globs sys gen_init globs = Some (Inr g)"
    and w': "w' = w @ header pkg (Now sys) incHTTP prefix (offset g)
            @ ''var '' @ prefix @ '' = &'' @ prefix @ ''T{\<newline>''
            @ ''    filenames: '' @ fmt_strings (Quote sys) (sort (filenames g)) @ '',\<newline>''
            @ ''    files: map[string]struct{ts int64; offset int; size int}{\<newline>''
            @ concat (map (entry_line (Quote sys)) (map_range sys (filemap g)))
            @ ''    },\<newline>''
            @ ''    data: ['' @ fmt_d (offset g) @ '']byte{\<newline>''
            @ databuf g
            @ ''    },\<newline>''
            @ ''}\<newline>''"
    by blast
  from process_globs_resolved [OF g]
  have names: "process_names sys gen_init (resolved sys globs) = Some (Inr g)" by simp
  have rec: "recorded sys gen_init (resolved sys globs) = layout sys 0 (resolved sys globs)"
    using recorded_layout [OF names] by (simp add: gen_init_def)
  from process_names_fields [OF names, unfolded rec]
  have "filenames g = map recorded_name (resolved sys globs)"
    and "fcount g = int (length (resolved sys globs))"
    and "databuf g = concat (map (file_section sys) (resolved sys globs))"
    and "offset g = sum_list (map (file_size sys) (resolved sys globs))"
    and "filemap g = foldl (\<lambda>al ke. AList.update (fst ke) (snd ke) al) []
           (layout sys 0 (resolved sys globs))"
    by (simp_all add: gen_init_def layout_sizes)
  with g w' names rec that show ?thesis by blast
qed

section \<open>The manifest\<close>

text \<open>
  The order of strings is the order of their bytes, as Go's \<^verbatim>\<open><\<close> on strings is: an upper-case
  letter comes before a lower-case one, and a string before the strings it begins.
\<close>

lemma string_less_bytes:
  "(a # as < b # bs) = ((of_char a :: nat) < of_char b \<or> a = b \<and> as < bs)"
  "([] < b # bs) = True"
  "(as < ([] :: string)) = False"
  by (simp_all add: less_char_def)

lemma sort_Strings_example:
  "sort [''b.txt'', ''Z.txt'', ''a.txt'', ''a.tx''] = [''Z.txt'', ''a.tx'', ''a.txt'', ''b.txt'']"
  by simp

lemmas example_defs =
  process_file_def fmtBytes_def write_block_def Buffer_Write_def fbuf_def fmt_byte_def
  digits_def TrimPrefix_def HasPrefix_def example_sys_def example_Glob_def example_Open_def
  gen_init_def recorded_name_def Let_def

lemma example_run_ab:
  "process_globs example_sys gen_init [''a.txt'', ''b.txt''] =
     Some (Inr \<lparr>offset = 3, fcount = 2, filenames = [''a.txt'', ''b.txt''],
       filemap = [(''a.txt'', \<lparr>entry_ts = 5, entry_offset = 0, entry_size = 3\<rparr>),
                  (''b.txt'', \<lparr>entry_ts = 0, entry_offset = 3, entry_size = 0\<rparr>)],
       databuf = ''\<newline>    // a.txt\<newline>    0x01, 0x02, 0x03,\<newline>\<newline>    // b.txt\<newline>''\<rparr>)"
  by (simp add: example_defs)

lemma example_run_dup:
  "process_globs example_sys gen_init [''*.txt'', ''a.txt''] =
     Some (Inr \<lparr>offset = 6, fcount = 3, filenames = [''a.txt'', ''b.txt'', ''a.txt''],
       filemap = [(''a.txt'', \<lparr>entry_ts = 5, entry_offset = 3, entry_size = 3\<rparr>),
                  (''b.txt'', \<lparr>entry_ts = 0, entry_offset = 3, entry_size = 0\<rparr>)],
       databuf = ''\<newline>    // a.txt\<newline>    0x01, 0x02, 0x03,\<newline>\<newline>    // b.txt\<newline>\<newline>    // a.txt\<newline>    0x01, 0x02, 0x03,\<newline>''\<rparr>)"
  by (simp add: example_defs)

lemma example_recorded_dup:
  "recorded example_sys gen_init [''a.txt'', ''b.txt'', ''a.txt''] =
     [(''a.txt'', \<lparr>entry_ts = 5, entry_offset = 0, entry_size = 3\<rparr>),
      (''b.txt'', \<lparr>entry_ts = 0, entry_offset = 3, entry_size = 0\<rparr>),
      (''a.txt'', \<lparr>entry_ts = 5, entry_offset = 3, entry_size = 3\<rparr>)]"
  by (simp add: example_defs)

lemma example_resolved_dup:
  "resolved example_sys [''*.txt'', ''a.txt''] = [''a.txt'', ''b.txt'', ''a.txt'']"
  by (simp add: example_sys_def example_Glob_def)

lemma example_generate_ab:
  "generate example_sys False [] ''main'' ''assets'' [''a.txt'', ''b.txt''] =
     Some ([] @ render example_sys ''main'' ''assets'' False
        (\<lparr>offset = 3, fcount = 2, filenames = [''a.txt'', ''b.txt''],
          filemap = [(''a.txt'', \<lparr>entry_ts = 5, entry_offset = 0, entry_size = 3\<rparr>),
                     (''b.txt'', \<lparr>entry_ts = 0, entry_offset = 3, entry_size = 0\<rparr>)],
          databuf = ''\<newline>    // a.txt\<newline>    0x01, 0x02, 0x03,\<newline>\<newline>    // b.txt\<newline>''\<rparr>
         \<lparr>filenames := sort [''a.txt'', ''b.txt'']\<rparr>), None)"
  unfolding generate_def example_run_ab by simp

lemma example_generate_dup:
  "generate example_sys False [] ''main'' ''assets'' [''*.txt'', ''a.txt''] =
     Some ([] @ render example_sys ''main'' ''assets'' False
        (\<lparr>offset = 6, fcount = 3, filenames = [''a.txt'', ''b.txt'', ''a.txt''],
          filemap = [(''a.txt'', \<lparr>entry_ts = 5, entry_offset = 3, entry_size = 3\<rparr>),
                     (''b.txt'', \<lparr>entry_ts = 0, entry_offset = 3, entry_size = 0\<rparr>)],
          databuf = ''\<newline>    // a.txt\<newline>    0x01, 0x02, 0x03,\<newline>\<newline>    // b.txt\<newline>\<newline>    // a.txt\<newline>    0x01, 0x02, 0x03,\<newline>''\<rparr>
         \<lparr>filenames := sort [''a.txt'', ''b.txt'', ''a.txt'']\<rparr>), None)"
  unfolding generate_def example_run_dup by simp

lemmas text_defs = render_def fmt_strings_def join_def entry_line_def fmt_d_def fmt_nat.simps

lemma example_output_dup:
  \<open>generate example_sys False [] ''main'' ''assets'' [''*.txt'', ''a.txt''] =
     Some (header ''main'' ''Tue Nov  3 10:00:00 UTC 2026'' False ''assets'' 6
           @ ''var assets = &assetsT{\<newline>''
           @ ''    filenames: []string{"a.txt", "a.txt", "b.txt"},\<newline>''
           @ ''    files: map[string]struct{ts int64; offset int; size int}{\<newline>''
           @ ''        "a.txt": {5, 3, 3},\<newline>''
           @ ''        "b.txt": {0, 3, 0},\<newline>''
           @ ''    },\<newline>''
           @ ''    data: [6]byte{\<newline>''
           @ ''\<newline>    // a.txt\<newline>    0x01, 0x02, 0x03,\<newline>''
           @ ''\<newline>    // b.txt\<newline>''
           @ ''\<newline>    // a.txt\<newline>    0x01, 0x02, 0x03,\<newline>''
           @ ''    },\<newline>''
           @ ''}\<newline>'', None)\<close>
  unfolding example_generate_dup
  by (simp add: text_defs example_sys_def)

lemma root_run:
  "process_globs root_sys gen_init [''/a.txt'', ''a.txt''] =
     Some (Inr \<lparr>offset = 6, fcount = 2, filenames = [''a.txt'', ''a.txt''],
       filemap = [(''a.txt'', \<lparr>entry_ts = 5, entry_offset = 3, entry_size = 3\<rparr>)],
       databuf = ''\<newline>    // /a.txt\<newline>    0x01, 0x02, 0x03,\<newline>\<newline>    // a.txt\<newline>    0x01, 0x02, 0x03,\<newline>''\<rparr>)"
  by (simp add: process_file_def fmtBytes_def write_block_def Buffer_Write_def fbuf_def
      fmt_byte_def digits_def TrimPrefix_def HasPrefix_def root_sys_def root_Glob_def
      root_Open_def gen_init_def Let_def)

lemma root_output:
  \<open>generate root_sys False [] ''main'' ''assets'' [''/a.txt'', ''a.txt''] =
     Some (header ''main'' ''Tue Nov  3 10:00:00 UTC 2026'' False ''assets'' 6
           @ ''var assets = &assetsT{\<newline>''
           @ ''    filenames: []string{"a.txt", "a.txt"},\<newline>''
           @ ''    files: map[string]struct{ts int64; offset int; size int}{\<newline>''
           @ ''        "a.txt": {5, 3, 3},\<newline>''
           @ ''    },\<newline>''
           @ ''    data: [6]byte{\<newline>''
           @ ''\<newline>    // /a.txt\<newline>    0x01, 0x02, 0x03,\<newline>''
           @ ''\<newline>    // a.txt\<newline>    0x01, 0x02, 0x03,\<newline>''
           @ ''    },\<newline>''
           @ ''}\<newline>'', None)\<close>
  unfolding generate_def root_run
  by (simp add: text_defs root_sys_def)

text \<open>
  Claim C2 says that the entries of the manifest start at offset 0, lie one after the other
  and have sizes that add up to \<^verbatim>\<open>DataSize\<close>. When a name is recorded twice the map keeps
  only its last entry: for the patterns \<^verbatim>\<open>*.txt\<close> and \<^verbatim>\<open>a.txt\<close> the output declares 6 bytes
  and the entries of \<^verbatim>\<open>a.txt\<close> and \<^verbatim>\<open>b.txt\<close> both have offset 3, with sizes 3 and 0.
\<close>

theorem manifest_chain_counterexample:
  \<open>generate example_sys False [] ''main'' ''assets'' [''*.txt'', ''a.txt''] =
     Some (header ''main'' ''Tue Nov  3 10:00:00 UTC 2026'' False ''assets'' 6
           @ ''var assets = &assetsT{\<newline>''
           @ ''    filenames: []string{"a.txt", "a.txt", "b.txt"},\<newline>''
           @ ''    files: map[string]struct{ts int64; offset int; size int}{\<newline>''
           @ ''        "a.txt": {5, 3, 3},\<newline>''
           @ ''        "b.txt": {0, 3, 0},\<newline>''
           @ ''    },\<newline>''
           @ ''    data: [6]byte{\<newline>''
           @ ''\<newline>    // a.txt\<newline>    0x01, 0x02, 0x03,\<newline>''
           @ ''\<newline>    // b.txt\<newline>''
           @ ''\<newline>    // a.txt\<newline>    0x01, 0x02, 0x03,\<newline>''
           @ ''    },\<newline>''
           @ ''}\<newline>'', None) \<and>
   (case process_globs example_sys gen_init [''*.txt'', ''a.txt''] of
      Some (Inr g) \<Rightarrow>
        map snd (filemap g) = [\<lparr>entry_ts = 5, entry_offset = 3, entry_size = 3\<rparr>,
                               \<lparr>entry_ts = 0, entry_offset = 3, entry_size = 0\<rparr>] \<and>
        offset g = 6 \<and>
        entry_offset (snd (filemap g ! 0)) \<noteq> 0 \<and>
        entry_offset (snd (filemap g ! 0)) + entry_size (snd (filemap g ! 0))
          \<noteq> entry_offset (snd (filemap g ! 1)) \<and>
        sum_list (map (entry_size \<circ> snd) (filemap g)) \<noteq> offset g
    | _ \<Rightarrow> False)\<close>
  unfolding example_output_dup example_run_dup by simp

text \<open>
  Claim C2, amended. After a successful run the entries in the order in which the loop
  recorded them, one for each file processed and each as large as its file, lie one after
  the other: the first has offset 0, each entry's offset plus its size is the offset of the
  next, no size is negative, and the sizes add up to the \<^verbatim>\<open>DataSize\<close> that the output
  declares, in the type of the header and in the initialiser of \<^verbatim>\<open>data\<close>. The final
  \<^verbatim>\<open>filemap\<close> is what the assignments of these entries leave, in order; when no name is
  recorded twice it is this list of entries.
\<close>

theorem recorded_offsets_contiguous:
  assumes "generate sys incHTTP w pkg prefix globs = Some (w', None)"
  shows "\<exists>g A.
     process_globs sys gen_init globs = Some (Inr g) \<and>
     (let names = resolved sys globs;
          es = map snd (recorded sys gen_init names);
          DataSize = sum_list (map entry_size es)
      in int (length es) = fcount g \<and> length es = length names \<and>
         map entry_size es = map (file_size sys) names \<and>
         (es \<noteq> [] \<longrightarrow> entry_offset (es ! 0) = 0) \<and>
         (\<forall>i. Suc i < length es \<longrightarrow>
            entry_offset (es ! i) + entry_size (es ! i) = entry_offset (es ! Suc i)) \<and>
         (\<forall>e \<in> set es. 0 \<le> entry_size e) \<and>
         DataSize = offset g \<and>
         w' = w @ header pkg (Now sys) incHTTP prefix DataSize @ A
                @ ''    data: ['' @ fmt_d DataSize @ '']byte{\<newline>''
                @ databuf g @ ''    },\<newline>'' @ ''}\<newline>'' \<and>
         (\<exists>pre post. header pkg (Now sys) incHTTP prefix DataSize =
                        pre @ (''data ['' @ fmt_d DataSize @ '']byte\<newline>'') @ post) \<and>
         filemap g = foldl (\<lambda>al ke. AList.update (fst ke) (snd ke) al) []
                       (recorded sys gen_init names) \<and>
         (distinct (map recorded_name names) \<longrightarrow> filemap g = recorded sys gen_init names))"
proof -
  from assms obtain g where g: "process_globs sys gen_init globs = Some (Inr g)"
    and w': "w' = w @ header pkg (Now sys) incHTTP prefix (offset g)
            @ ''var '' @ prefix @ '' = &'' @ prefix @ ''T{\<newline>''
            @ ''    filenames: '' @ fmt_strings (Quote sys) (sort (filenames g)) @ '',\<newline>''
            @ ''    files: map[string]struct{ts int64; offset int; size int}{\<newline>''
            @ concat (map (entry_line (Quote sys)) (map_range sys (filemap g)))
            @ ''    },\<newline>''
            @ ''    data: ['' @ fmt_d (offset g) @ '']byte{\<newline>''
            @ databuf g
            @ ''    },\<newline>''
            @ ''}\<newline>''"
    and names: "process_names sys gen_init (resolved sys globs) = Some (Inr g)"
    and fc: "fcount g = int (length (resolved sys globs))"
    and off: "offset g = sum_list (map (file_size sys) (resolved sys globs))"
    and rec: "recorded sys gen_init (resolved sys globs) = layout sys 0 (resolved sys globs)"
    and fm: "filemap g = foldl (\<lambda>al ke. AList.update (fst ke) (snd ke) al) []
           (layout sys 0 (resolved sys globs))"
    by (rule generate_layout)
  let ?names = "resolved sys globs"
  let ?es = "map snd (recorded sys gen_init ?names)"
  have sizes: "map entry_size ?es = map (file_size sys) ?names"
    using layout_sizes [of sys 0 ?names] by (simp add: rec)
  then have total: "sum_list (map entry_size ?es) = offset g"
    by (simp only: off)
  have len: "length ?es = length ?names"
    using layout_keys [of sys 0 ?names] by (simp add: rec) (metis length_map)
  from contiguous_nth [OF recorded_contiguous [OF names]]
  have chain: "(?es \<noteq> [] \<longrightarrow> entry_offset (?es ! 0) = 0) \<and>
     (\<forall>i. Suc i < length ?es \<longrightarrow>
        entry_offset (?es ! i) + entry_size (?es ! i) = entry_offset (?es ! Suc i)) \<and>
     (\<forall>e \<in> set ?es. 0 \<le> entry_size e)"
    by (simp add: gen_init_def)
  have same: "filemap g = recorded sys gen_init ?names" if "distinct (map recorded_name ?names)"
    using that foldl_update_distinct [of "[]" "layout sys 0 ?names"]
    by (simp add: rec fm layout_keys)
  define A where "A = ''var '' @ prefix @ '' = &'' @ prefix @ ''T{\<newline>''
            @ ''    filenames: '' @ fmt_strings (Quote sys) (sort (filenames g)) @ '',\<newline>''
            @ ''    files: map[string]struct{ts int64; offset int; size int}{\<newline>''
            @ concat (map (entry_line (Quote sys)) (map_range sys (filemap g)))
            @ ''    },\<newline>''"
  have out: "w' = w @ header pkg (Now sys) incHTTP prefix (sum_list (map entry_size ?es)) @ A
                @ ''    data: ['' @ fmt_d (sum_list (map entry_size ?es)) @ '']byte{\<newline>''
                @ databuf g @ ''    },\<newline>'' @ ''}\<newline>''"
    unfolding total A_def using w' by simp
  have fm': "filemap g = foldl (\<lambda>al ke. AList.update (fst ke) (snd ke) al) []
                       (recorded sys gen_init ?names)"
    by (simp only: rec fm)
  from g fc len sizes chain total out fm' same
    header_DataSize [of pkg "Now sys" incHTTP prefix "sum_list (map entry_size ?es)"]
  show ?thesis
    unfolding Let_def by (intro exI [of _ g] exI [of _ A]) simp
qed

theorem recorded_offsets_contiguous_witness:
  "\<exists>g A.
     process_globs example_sys gen_init [''*.txt'', ''a.txt''] = Some (Inr g) \<and>
     map snd (recorded example_sys gen_init (resolved example_sys [''*.txt'', ''a.txt''])) =
       [\<lparr>entry_ts = 5, entry_offset = 0, entry_size = 3\<rparr>,
        \<lparr>entry_ts = 0, entry_offset = 3, entry_size = 0\<rparr>,
        \<lparr>entry_ts = 5, entry_offset = 3, entry_size = 3\<rparr>] \<and>
     offset g = 6 \<and> fcount g = 3 \<and>
     generate example_sys False [] ''main'' ''assets'' [''*.txt'', ''a.txt''] =
       Some ([] @ header ''main'' (Now example_sys) False ''assets'' 6 @ A
             @ ''    data: ['' @ fmt_d 6 @ '']byte{\<newline>''
             @ databuf g @ ''    },\<newline>'' @ ''}\<newline>'', None)"
  using recorded_offsets_contiguous [OF example_generate_dup]
  unfolding example_generate_dup example_run_dup example_resolved_dup example_recorded_dup Let_def
  by simp

text \<open>
  Claim C3. For every name \<open>n\<close> under which a file was recorded (one recorded several times
  in particular), let \<open>p\<close> be the last resolved path recorded under \<open>n\<close> and \<open>pre\<close> the paths
  processed before it. The final \<^verbatim>\<open>filemap\<close> holds exactly one entry with the key \<open>n\<close>: its
  offset is the number of bytes read from the files of \<open>pre\<close>, its size the number of bytes
  read from \<open>p\<close>, its time that of \<open>p\<close>. Every occurrence has still been counted, read and
  encoded: \<^verbatim>\<open>databuf\<close>, which the output ends with, holds one comment and one encoding for
  each resolved path, in order, and \<^verbatim>\<open>offset\<close> is the number of bytes of all of them.
  Names are compared as they are recorded, after the leading separator is removed.
\<close>

theorem duplicate_name_last_entry:
  assumes "generate sys incHTTP w pkg prefix globs = Some (w', None)"
    and "n \<in> set (map recorded_name (resolved sys globs))"
  shows "\<exists>g pre p post A.
     process_globs sys gen_init globs = Some (Inr g) \<and>
     resolved sys globs = pre @ p # post \<and>
     recorded_name p = n \<and> n \<notin> set (map recorded_name post) \<and>
     map_of (filemap g) n =
       Some \<lparr>entry_ts = file_ts sys p, entry_offset = sum_list (map (file_size sys) pre),
             entry_size = file_size sys p\<rparr> \<and>
     filter (\<lambda>ke. fst ke = n) (filemap g) =
       [(n, \<lparr>entry_ts = file_ts sys p, entry_offset = sum_list (map (file_size sys) pre),
              entry_size = file_size sys p\<rparr>)] \<and>
     fcount g = int (length (resolved sys globs)) \<and>
     offset g = sum_list (map (file_size sys) (resolved sys globs)) \<and>
     databuf g = concat (map (file_section sys) (resolved sys globs)) \<and>
     w' = w @ A @ concat (map (entry_line (Quote sys)) (map_range sys (filemap g)))
            @ ''    },\<newline>''
            @ ''    data: ['' @ fmt_d (offset g) @ '']byte{\<newline>''
            @ databuf g
            @ ''    },\<newline>''
            @ ''}\<newline>''"
proof -
  from assms(1) obtain g where g: "process_globs sys gen_init globs = Some (Inr g)"
    and w': "w' = w @ header pkg (Now sys) incHTTP prefix (offset g)
            @ ''var '' @ prefix @ '' = &'' @ prefix @ ''T{\<newline>''
            @ ''    filenames: '' @ fmt_strings (Quote sys) (sort (filenames g)) @ '',\<newline>''
            @ ''    files: map[string]struct{ts int64; offset int; size int}{\<newline>''
            @ concat (map (entry_line (Quote sys)) (map_range sys (filemap g)))
            @ ''    },\<newline>''
            @ ''    data: ['' @ fmt_d (offset g) @ '']byte{\<newline>''
            @ databuf g
            @ ''    },\<newline>''
            @ ''}\<newline>''"
    and fc: "fcount g = int (length (resolved sys globs))"
    and db: "databuf g = concat (map (file_section sys) (resolved sys globs))"
    and off: "offset g = sum_list (map (file_size sys) (resolved sys globs))"
    and fm: "filemap g = foldl (\<lambda>al ke. AList.update (fst ke) (snd ke) al) []
           (layout sys 0 (resolved sys globs))"
    by (rule generate_layout)
  from assms(2) have "\<exists>x \<in> set (resolved sys globs). recorded_name x = n" by auto
  from split_list_last_prop [OF this] obtain pre p post where
    split: "resolved sys globs = pre @ p # post" and p: "recorded_name p = n"
    and post: "\<forall>z \<in> set post. recorded_name z \<noteq> n"
    by blast
  from post have notin: "n \<notin> set (map recorded_name post)" by auto
  let ?e = "\<lparr>entry_ts = file_ts sys p, entry_offset = sum_list (map (file_size sys) pre),
             entry_size = file_size sys p\<rparr>"
  have key: "n \<in> fst ` set (layout sys 0 (resolved sys globs))"
    using assms(2) layout_keys [of sys 0 "resolved sys globs"] by (metis list.set_map)
  have lastn: "last (filter (\<lambda>ke. fst ke = n) (layout sys 0 (resolved sys globs))) = (n, ?e)"
    using layout_last [of p post sys 0 pre] notin by (simp add: split p)
  have look: "map_of (filemap g) n = Some ?e"
    unfolding fm using key by (simp add: map_of_foldl_update lastn)
  have "distinct (map fst (filemap g))"
    unfolding fm by (rule distinct_foldl_update) simp
  from filter_key_distinct [OF this look]
  have one: "filter (\<lambda>ke. fst ke = n) (filemap g) = [(n, ?e)]" .
  define A where "A = header pkg (Now sys) incHTTP prefix (offset g)
            @ ''var '' @ prefix @ '' = &'' @ prefix @ ''T{\<newline>''
            @ ''    filenames: '' @ fmt_strings (Quote sys) (sort (filenames g)) @ '',\<newline>''
            @ ''    files: map[string]struct{ts int64; offset int; size int}{\<newline>''"
  have out: "w' = w @ A @ concat (map (entry_line (Quote sys)) (map_range sys (filemap g)))
            @ ''    },\<newline>''
            @ ''    data: ['' @ fmt_d (offset g) @ '']byte{\<newline>''
            @ databuf g
            @ ''    },\<newline>''
            @ ''}\<newline>''"
    unfolding A_def using w' by simp
  from g split p notin look one fc off db out show ?thesis
    by (intro exI [of _ g] exI [of _ pre] exI [of _ p] exI [of _ post] exI [of _ A]) simp
qed

theorem duplicate_name_last_entry_witness:
  "\<exists>g pre p post.
     process_globs example_sys gen_init [''*.txt'', ''a.txt''] = Some (Inr g) \<and>
     resolved example_sys [''*.txt'', ''a.txt''] = pre @ p # post \<and>
     recorded_name p = ''a.txt'' \<and> ''a.txt'' \<notin> set (map recorded_name post) \<and>
     map_of (filemap g) ''a.txt'' =
       Some \<lparr>entry_ts = file_ts example_sys p,
             entry_offset = sum_list (map (file_size example_sys) pre),
             entry_size = file_size example_sys p\<rparr> \<and>
     map_of (filemap g) ''a.txt'' = Some \<lparr>entry_ts = 5, entry_offset = 3, entry_size = 3\<rparr> \<and>
     filter (\<lambda>ke. fst ke = ''a.txt'') (filemap g) =
       [(''a.txt'', \<lparr>entry_ts = 5, entry_offset = 3, entry_size = 3\<rparr>)]"
proof -
  have n: "''a.txt'' \<in> set (map recorded_name (resolved example_sys [''*.txt'', ''a.txt'']))"
    unfolding example_resolved_dup
    by (simp add: recorded_name_def TrimPrefix_def HasPrefix_def)
  from duplicate_name_last_entry [OF example_generate_dup n] obtain g pre p post where
    g: "process_globs example_sys gen_init [''*.txt'', ''a.txt''] = Some (Inr g)"
    and split: "resolved example_sys [''*.txt'', ''a.txt''] = pre @ p # post"
    and p: "recorded_name p = ''a.txt''" "''a.txt'' \<notin> set (map recorded_name post)"
    and look: "map_of (filemap g) ''a.txt'' =
       Some \<lparr>entry_ts = file_ts example_sys p,
             entry_offset = sum_list (map (file_size example_sys) pre),
             entry_size = file_size example_sys p\<rparr>"
    by (elim exE conjE) (rule that; assumption)
  from g have G: "filemap g =
      [(''a.txt'', \<lparr>entry_ts = 5, entry_offset = 3, entry_size = 3\<rparr>),
       (''b.txt'', \<lparr>entry_ts = 0, entry_offset = 3, entry_size = 0\<rparr>)]"
    unfolding example_run_dup by auto
  have c: "map_of (filemap g) ''a.txt'' = Some \<lparr>entry_ts = 5, entry_offset = 3, entry_size = 3\<rparr>"
    and d: "filter (\<lambda>ke. fst ke = ''a.txt'') (filemap g) =
       [(''a.txt'', \<lparr>entry_ts = 5, entry_offset = 3, entry_size = 3\<rparr>)]"
    unfolding G by simp_all
  show ?thesis
    by (insert g split p look c d,
        intro exI [of _ g] exI [of _ pre] exI [of _ p] exI [of _ post] conjI; assumption)
qed

text \<open>
  Claim C5. In a successful run the text written holds, after the header and the line of
  the variable, the list \<open>fl\<close> in the syntax of \<^verbatim>\<open>%#v\<close>, where \<open>fl\<close> is sorted in the order of
  strings, which compares byte by byte, and holds exactly the recorded names. \<^verbatim>\<open>filemap\<close> has
  an entry under the recorded name of every file processed, and the entries written after
  the list, in whatever order \<^verbatim>\<open>range\<close> visits them, make the same map.
\<close>

theorem filenames_written_sorted:
  assumes "generate sys incHTTP w pkg prefix globs = Some (w', None)"
  shows "\<exists>g fl rest.
     process_globs sys gen_init globs = Some (Inr g) \<and>
     w' = w @ header pkg (Now sys) incHTTP prefix (offset g)
            @ ''var '' @ prefix @ '' = &'' @ prefix @ ''T{\<newline>''
            @ ''    filenames: '' @ fmt_strings (Quote sys) fl @ '',\<newline>''
            @ ''    files: map[string]struct{ts int64; offset int; size int}{\<newline>''
            @ concat (map (entry_line (Quote sys)) (map_range sys (filemap g)))
            @ rest \<and>
     sorted fl \<and>
     mset fl = mset (map recorded_name (resolved sys globs)) \<and>
     (\<forall>name \<in> set (resolved sys globs).
        \<exists>e. map_of (filemap g) (recorded_name name) = Some e) \<and>
     ((\<forall>al. mset (map_range sys al) = mset al) \<longrightarrow>
        map_of (map_range sys (filemap g)) = map_of (filemap g))"
proof -
  from assms(1) obtain g where g: "process_globs sys gen_init globs = Some (Inr g)"
    and w': "w' = w @ header pkg (Now sys) incHTTP prefix (offset g)
            @ ''var '' @ prefix @ '' = &'' @ prefix @ ''T{\<newline>''
            @ ''    filenames: '' @ fmt_strings (Quote sys) (sort (filenames g)) @ '',\<newline>''
            @ ''    files: map[string]struct{ts int64; offset int; size int}{\<newline>''
            @ concat (map (entry_line (Quote sys)) (map_range sys (filemap g)))
            @ ''    },\<newline>''
            @ ''    data: ['' @ fmt_d (offset g) @ '']byte{\<newline>''
            @ databuf g
            @ ''    },\<newline>''
            @ ''}\<newline>''"
    and fn: "filenames g = map recorded_name (resolved sys globs)"
    and fm: "filemap g = foldl (\<lambda>al ke. AList.update (fst ke) (snd ke) al) []
           (layout sys 0 (resolved sys globs))"
    by (rule generate_layout)
  have found: "\<exists>e. map_of (filemap g) (recorded_name name) = Some e"
    if "name \<in> set (resolved sys globs)" for name
  proof -
    from that have "recorded_name name \<in> set (map recorded_name (resolved sys globs))" by simp
    then have "recorded_name name \<in> fst ` set (layout sys 0 (resolved sys globs))"
      using layout_keys [of sys 0 "resolved sys globs"] by (metis list.set_map)
    then show ?thesis unfolding fm by (simp add: map_of_foldl_update)
  qed
  have d: "distinct (map fst (filemap g))"
    unfolding fm by (rule distinct_foldl_update) simp
  have perm: "map_of (map_range sys (filemap g)) = map_of (filemap g)"
    if "\<forall>al. mset (map_range sys al) = mset al"
    using that d map_of_permuted [of "map_range sys (filemap g)" "filemap g"] by simp
  have s: "sorted (sort (filenames g))"
    and m: "mset (sort (filenames g)) = mset (map recorded_name (resolved sys globs))"
    by (simp_all add: fn)
  from g w' s m found perm show ?thesis
    by (intro exI [of _ g] exI [of _ "sort (filenames g)"]
        exI [of _ "''    },\<newline>'' @ ''    data: ['' @ fmt_d (offset g) @ '']byte{\<newline>''
            @ databuf g @ ''    },\<newline>'' @ ''}\<newline>''"]) simp
qed

theorem filenames_written_sorted_witness:
  \<open>\<exists>g fl rest.
     process_globs example_sys gen_init [''*.txt'', ''a.txt''] = Some (Inr g) \<and>
     filenames g = [''a.txt'', ''b.txt'', ''a.txt''] \<and>
     generate example_sys False [] ''main'' ''assets'' [''*.txt'', ''a.txt''] =
       Some ([] @ header ''main'' (Now example_sys) False ''assets'' (offset g)
             @ ''var '' @ ''assets'' @ '' = &'' @ ''assets'' @ ''T{\<newline>''
             @ ''    filenames: '' @ fmt_strings (Quote example_sys) fl @ '',\<newline>''
             @ ''    files: map[string]struct{ts int64; offset int; size int}{\<newline>''
             @ concat (map (entry_line (Quote example_sys)) (map_range example_sys (filemap g)))
             @ rest, None) \<and>
     sorted fl \<and> mset fl = mset [''a.txt'', ''b.txt'', ''a.txt''] \<and>
     map_of (map_range example_sys (filemap g)) ''a.txt''
       = Some \<lparr>entry_ts = 5, entry_offset = 3, entry_size = 3\<rparr> \<and>
     map_of (map_range example_sys (filemap g)) ''b.txt''
       = Some \<lparr>entry_ts = 0, entry_offset = 3, entry_size = 0\<rparr>\<close>
proof -
  let ?globs = "[''*.txt'', ''a.txt'']"
  let ?run = "generate example_sys False [] ''main'' ''assets'' ?globs"
  have perm: "\<forall>al. mset (map_range example_sys al) = mset al" by (simp add: example_sys_def)
  from filenames_written_sorted [OF example_generate_dup] obtain g fl rest where
    g: "process_globs example_sys gen_init ?globs = Some (Inr g)"
    and out: "[] @ render example_sys ''main'' ''assets'' False
         (\<lparr>offset = 6, fcount = 3, filenames = [''a.txt'', ''b.txt'', ''a.txt''],
          filemap = [(''a.txt'', \<lparr>entry_ts = 5, entry_offset = 3, entry_size = 3\<rparr>),
                     (''b.txt'', \<lparr>entry_ts = 0, entry_offset = 3, entry_size = 0\<rparr>)],
          databuf = ''\<newline>    // a.txt\<newline>    0x01, 0x02, 0x03,\<newline>\<newline>    // b.txt\<newline>\<newline>    // a.txt\<newline>    0x01, 0x02, 0x03,\<newline>''\<rparr>
         \<lparr>filenames := sort [''a.txt'', ''b.txt'', ''a.txt'']\<rparr>) =
        [] @ header ''main'' (Now example_sys) False ''assets'' (offset g)
             @ ''var '' @ ''assets'' @ '' = &'' @ ''assets'' @ ''T{\<newline>''
             @ ''    filenames: '' @ fmt_strings (Quote example_sys) fl @ '',\<newline>''
             @ ''    files: map[string]struct{ts int64; offset int; size int}{\<newline>''
             @ concat (map (entry_line (Quote example_sys)) (map_range example_sys (filemap g)))
             @ rest"
    and s: "sorted fl"
    and m: "mset fl = mset (map recorded_name (resolved example_sys ?globs))"
    and same: "(\<forall>al. mset (map_range example_sys al) = mset al) \<longrightarrow>
        map_of (map_range example_sys (filemap g)) = map_of (filemap g)"
    by (elim exE conjE) (rule that; assumption)
  from g have G: "filenames g = [''a.txt'', ''b.txt'', ''a.txt'']"
    "filemap g = [(''a.txt'', \<lparr>entry_ts = 5, entry_offset = 3, entry_size = 3\<rparr>),
                  (''b.txt'', \<lparr>entry_ts = 0, entry_offset = 3, entry_size = 0\<rparr>)]"
    unfolding example_run_dup by auto
  from out have run: "?run =
       Some ([] @ header ''main'' (Now example_sys) False ''assets'' (offset g)
             @ ''var '' @ ''assets'' @ '' = &'' @ ''assets'' @ ''T{\<newline>''
             @ ''    filenames: '' @ fmt_strings (Quote example_sys) fl @ '',\<newline>''
             @ ''    files: map[string]struct{ts int64; offset int; size int}{\<newline>''
             @ concat (map (entry_line (Quote example_sys)) (map_range example_sys (filemap g)))
             @ rest, None)"
    unfolding example_generate_dup by (simp only:)
  from m have m': "mset fl = mset [''a.txt'', ''b.txt'', ''a.txt'']"
    unfolding example_resolved_dup
    by (simp add: recorded_name_def TrimPrefix_def HasPrefix_def)
  from same perm have eq: "map_of (map_range example_sys (filemap g)) = map_of (filemap g)"
    by blast
  have a: "map_of (map_range example_sys (filemap g)) ''a.txt''
       = Some \<lparr>entry_ts = 5, entry_offset = 3, entry_size = 3\<rparr>"
    and b: "map_of (map_range example_sys (filemap g)) ''b.txt''
       = Some \<lparr>entry_ts = 0, entry_offset = 3, entry_size = 0\<rparr>"
    unfolding eq unfolding G by simp_all
  show ?thesis
    by (insert g G(1) run s m' a b,
        intro exI [of _ g] exI [of _ fl] exI [of _ rest] conjI; assumption)
qed

text \<open>
  Claim C9 says that a path matched \<open>k\<close> times occurs \<open>k\<close> times in the list written. The list
  holds recorded names: in a working directory that is the root, the patterns \<^verbatim>\<open>/a.txt\<close> and
  \<^verbatim>\<open>a.txt\<close> each match once, and the list written holds \<^verbatim>\<open>a.txt\<close> twice and \<^verbatim>\<open>/a.txt\<close> not
  at all.
\<close>

theorem filenames_count_counterexample:
  \<open>resolved root_sys [''/a.txt'', ''a.txt''] = [''/a.txt'', ''a.txt''] \<and>
   count_list (resolved root_sys [''/a.txt'', ''a.txt'']) ''a.txt'' = 1 \<and>
   generate root_sys False [] ''main'' ''assets'' [''/a.txt'', ''a.txt''] =
     Some (header ''main'' ''Tue Nov  3 10:00:00 UTC 2026'' False ''assets'' 6
           @ ''var assets = &assetsT{\<newline>''
           @ ''    filenames: []string{"a.txt", "a.txt"},\<newline>''
           @ ''    files: map[string]struct{ts int64; offset int; size int}{\<newline>''
           @ ''        "a.txt": {5, 3, 3},\<newline>''
           @ ''    },\<newline>''
           @ ''    data: [6]byte{\<newline>''
           @ ''\<newline>    // /a.txt\<newline>    0x01, 0x02, 0x03,\<newline>''
           @ ''\<newline>    // a.txt\<newline>    0x01, 0x02, 0x03,\<newline>''
           @ ''    },\<newline>''
           @ ''}\<newline>'', None) \<and>
   (case process_globs root_sys gen_init [''/a.txt'', ''a.txt''] of
      Some (Inr g) \<Rightarrow>
        sort (filenames g) = [''a.txt'', ''a.txt''] \<and>
        count_list (sort (filenames g)) ''a.txt'' = 2 \<and>
        count_list (sort (filenames g)) ''/a.txt'' = 0
    | _ \<Rightarrow> False)\<close>
proof -
  have r: "resolved root_sys [''/a.txt'', ''a.txt''] = [''/a.txt'', ''a.txt'']"
    by (simp add: root_sys_def root_Glob_def)
  show ?thesis
    unfolding root_output root_run r by simp
qed

text \<open>
  Claim C9, amended. The list written holds one name for each resolved path, and each
  recorded name as many times as paths were recorded under it: nothing is removed from the
  list, while \<^verbatim>\<open>filemap\<close> has one entry for each name of the list. A path \<open>p\<close> whose recorded
  name no other resolved path shares occurs in the list as often as the patterns matched it.
\<close>

theorem filenames_written_keep_duplicates:
  assumes "generate sys incHTTP w pkg prefix globs = Some (w', None)"
  shows "\<exists>g fl rest.
     process_globs sys gen_init globs = Some (Inr g) \<and>
     w' = w @ header pkg (Now sys) incHTTP prefix (offset g)
            @ ''var '' @ prefix @ '' = &'' @ prefix @ ''T{\<newline>''
            @ ''    filenames: '' @ fmt_strings (Quote sys) fl @ '',\<newline>''
            @ ''    files: map[string]struct{ts int64; offset int; size int}{\<newline>''
            @ concat (map (entry_line (Quote sys)) (map_range sys (filemap g)))
            @ rest \<and>
     length fl = length (resolved sys globs) \<and>
     (\<forall>n. count_list fl n = count_list (map recorded_name (resolved sys globs)) n) \<and>
     (\<forall>p. (\<forall>q \<in> set (resolved sys globs). recorded_name q = recorded_name p \<longrightarrow> q = p)
        \<longrightarrow> count_list fl (recorded_name p) = count_list (resolved sys globs) p) \<and>
     distinct (map fst (filemap g)) \<and>
     set (map fst (filemap g)) = set fl"
proof -
  from assms(1) obtain g where g: "process_globs sys gen_init globs = Some (Inr g)"
    and w': "w' = w @ header pkg (Now sys) incHTTP prefix (offset g)
            @ ''var '' @ prefix @ '' = &'' @ prefix @ ''T{\<newline>''
            @ ''    filenames: '' @ fmt_strings (Quote sys) (sort (filenames g)) @ '',\<newline>''
            @ ''    files: map[string]struct{ts int64; offset int; size int}{\<newline>''
            @ concat (map (entry_line (Quote sys)) (map_range sys (filemap g)))
            @ ''    },\<newline>''
            @ ''    data: ['' @ fmt_d (offset g) @ '']byte{\<newline>''
            @ databuf g
            @ ''    },\<newline>''
            @ ''}\<newline>''"
    and fn: "filenames g = map recorded_name (resolved sys globs)"
    and fm: "filemap g = foldl (\<lambda>al ke. AList.update (fst ke) (snd ke) al) []
           (layout sys 0 (resolved sys globs))"
    by (rule generate_layout)
  let ?fl = "sort (filenames g)"
  have d: "distinct (map fst (filemap g))"
    unfolding fm by (rule distinct_foldl_update) simp
  have keys: "set (map fst (filemap g)) = set ?fl"
  proof -
    have "k \<in> fst ` set (filemap g) \<longleftrightarrow> k \<in> set (map recorded_name (resolved sys globs))" for k
    proof -
      have "k \<in> fst ` set (filemap g) \<longleftrightarrow> map_of (filemap g) k \<noteq> None"
        by (simp add: map_of_eq_None_iff)
      also have "\<dots> \<longleftrightarrow> k \<in> fst ` set (layout sys 0 (resolved sys globs))"
        unfolding fm by (simp add: map_of_foldl_update)
      also have "\<dots> \<longleftrightarrow> k \<in> set (map recorded_name (resolved sys globs))"
        using layout_keys [of sys 0 "resolved sys globs"] by (metis list.set_map)
      finally show ?thesis .
    qed
    then show ?thesis by (auto simp: fn)
  qed
  have len: "length ?fl = length (resolved sys globs)" by (simp add: fn)
  have c1: "count_list ?fl n = count_list (map recorded_name (resolved sys globs)) n" for n
    by (simp add: count_list_sort fn)
  have c2: "count_list ?fl (recorded_name p) = count_list (resolved sys globs) p"
    if "\<forall>q \<in> set (resolved sys globs). recorded_name q = recorded_name p \<longrightarrow> q = p" for p
    using that by (simp add: count_list_sort fn count_list_map_inj)
  from g w' len c1 c2 d keys show ?thesis
    by (intro exI [of _ g] exI [of _ ?fl]
        exI [of _ "''    },\<newline>'' @ ''    data: ['' @ fmt_d (offset g) @ '']byte{\<newline>''
            @ databuf g @ ''    },\<newline>'' @ ''}\<newline>''"]) simp
qed

theorem filenames_written_keep_duplicates_witness:
  \<open>\<exists>g fl rest.
     process_globs example_sys gen_init [''*.txt'', ''a.txt''] = Some (Inr g) \<and>
     generate example_sys False [] ''main'' ''assets'' [''*.txt'', ''a.txt''] =
       Some ([] @ header ''main'' (Now example_sys) False ''assets'' (offset g)
             @ ''var '' @ ''assets'' @ '' = &'' @ ''assets'' @ ''T{\<newline>''
             @ ''    filenames: '' @ fmt_strings (Quote example_sys) fl @ '',\<newline>''
             @ ''    files: map[string]struct{ts int64; offset int; size int}{\<newline>''
             @ concat (map (entry_line (Quote example_sys)) (map_range example_sys (filemap g)))
             @ rest, None) \<and>
     count_list (resolved example_sys [''*.txt'', ''a.txt'']) ''a.txt'' = 2 \<and>
     count_list fl ''a.txt'' = 2 \<and> count_list fl ''b.txt'' = 1 \<and> length fl = 3 \<and>
     map fst (filemap g) = [''a.txt'', ''b.txt'']\<close>
proof -
  let ?globs = "[''*.txt'', ''a.txt'']"
  let ?run = "generate example_sys False [] ''main'' ''assets'' ?globs"
  from filenames_written_keep_duplicates [OF example_generate_dup] obtain g fl rest where
    g: "process_globs example_sys gen_init ?globs = Some (Inr g)"
    and out: "[] @ render example_sys ''main'' ''assets'' False
         (\<lparr>offset = 6, fcount = 3, filenames = [''a.txt'', ''b.txt'', ''a.txt''],
          filemap = [(''a.txt'', \<lparr>entry_ts = 5, entry_offset = 3, entry_size = 3\<rparr>),
                     (''b.txt'', \<lparr>entry_ts = 0, entry_offset = 3, entry_size = 0\<rparr>)],
          databuf = ''\<newline>    // a.txt\<newline>    0x01, 0x02, 0x03,\<newline>\<newline>    // b.txt\<newline>\<newline>    // a.txt\<newline>    0x01, 0x02, 0x03,\<newline>''\<rparr>
         \<lparr>filenames := sort [''a.txt'', ''b.txt'', ''a.txt'']\<rparr>) =
        [] @ header ''main'' (Now example_sys) False ''assets'' (offset g)
             @ ''var '' @ ''assets'' @ '' = &'' @ ''assets'' @ ''T{\<newline>''
             @ ''    filenames: '' @ fmt_strings (Quote example_sys) fl @ '',\<newline>''
             @ ''    files: map[string]struct{ts int64; offset int; size int}{\<newline>''
             @ concat (map (entry_line (Quote example_sys)) (map_range example_sys (filemap g)))
             @ rest"
    and len: "length fl = length (resolved example_sys ?globs)"
    and cnt: "\<forall>n. count_list fl n = count_list (map recorded_name (resolved example_sys ?globs)) n"
    by (elim exE conjE) (rule that; assumption)
  from g have G: "map fst (filemap g) = [''a.txt'', ''b.txt'']"
    unfolding example_run_dup by auto
  from out have run: "?run =
       Some ([] @ header ''main'' (Now example_sys) False ''assets'' (offset g)
             @ ''var '' @ ''assets'' @ '' = &'' @ ''assets'' @ ''T{\<newline>''
             @ ''    filenames: '' @ fmt_strings (Quote example_sys) fl @ '',\<newline>''
             @ ''    files: map[string]struct{ts int64; offset int; size int}{\<newline>''
             @ concat (map (entry_line (Quote example_sys)) (map_range example_sys (filemap g)))
             @ rest, None)"
    unfolding example_generate_dup by (simp only:)
  have r: "count_list (resolved example_sys ?globs) ''a.txt'' = 2"
    unfolding example_resolved_dup by simp
  from cnt have ca: "count_list fl ''a.txt'' = 2" and cb: "count_list fl ''b.txt'' = 1"
    unfolding example_resolved_dup
    by (simp_all add: recorded_name_def TrimPrefix_def HasPrefix_def)
  from len have l: "length fl = 3" unfolding example_resolved_dup by simp
  show ?thesis
    by (insert g run r ca cb l G,
        intro exI [of _ g] exI [of _ fl] exI [of _ rest] conjI; assumption)
qed

section \<open>Errors of generate\<close>

lemma process_globs_append:
  "process_globs sys g (ps @ qs) =
     (case process_globs sys g ps of
        None \<Rightarrow> None
      | Some (Inl err) \<Rightarrow> Some (Inl err)
      | Some (Inr g') \<Rightarrow> process_globs sys g' qs)"
proof (induction ps arbitrary: g)
  case Nil
  show ?case by simp
next
  case (Cons p ps)
  show ?case
  proof (cases "Glob sys p")
    case (Inl err)
    then show ?thesis by simp
  next
    case (Inr names)
    show ?thesis
    proof (cases "process_names sys g names")
      case None
      with Inr show ?thesis by simp
    next
      case (Some r)
      with Inr Cons.IH show ?thesis by (cases r) simp_all
    qed
  qed
qed


lemma generate_writes_only_on_success:
  "generate sys incHTTP w pkg prefix globs = Some (w', Some err) \<Longrightarrow> w' = w"
  by (auto simp: generate_def split: option.splits sum.splits if_splits)



text \<open>
  Claim C7 says that the error for a malformed pattern names the pattern. \<^verbatim>\<open>generate\<close>
  returns the error of \<^verbatim>\<open>filepath.Glob\<close> as it is, and that error is
  \<^verbatim>\<open>filepath.ErrBadPattern\<close>, whose message does not hold the pattern.
\<close>

theorem glob_error_names_pattern_counterexample:
  "generate example_sys False [] ''main'' ''assets'' [''a.txt'', ''['', ''b.txt'']
     = Some ([], Some ErrBadPattern) \<and>
   Error ErrBadPattern = ''syntax error in pattern'' \<and>
   \<not> Contains (Error ErrBadPattern) ''[''"
  by (simp add: generate_def example_defs Contains_def)

text \<open>
  Claim C7, amended. When a pattern is malformed the run does not succeed and writes
  nothing; and when the patterns before it have been processed without error, \<^verbatim>\<open>generate\<close>
  returns at once the error that \<^verbatim>\<open>filepath.Glob\<close> returned, unchanged, whatever the later
  patterns are.
\<close>

theorem glob_error_returned:
  "(p \<in> set globs \<and> Glob sys p = Inl e \<longrightarrow>
      (\<forall>w' r. generate sys incHTTP w pkg prefix globs = Some (w', r) \<longrightarrow> w' = w \<and> r \<noteq> None)) \<and>
   (process_globs sys gen_init ps = Some (Inr g) \<and> Glob sys p = Inl e \<longrightarrow>
      generate sys incHTTP w pkg prefix (ps @ p # qs) = Some (w, Some e))"
proof (intro conjI impI allI)
  fix w' r
  assume bad: "p \<in> set globs \<and> Glob sys p = Inl e"
    and run: "generate sys incHTTP w pkg prefix globs = Some (w', r)"
  show "w' = w"
  proof (cases r)
    case None
    with run obtain g where "process_globs sys gen_init globs = Some (Inr g)"
      using generate_success by blast
    from process_globs_resolved [OF this] bad show ?thesis by auto
  next
    case (Some err)
    with run show ?thesis by (simp add: generate_writes_only_on_success)
  qed
  show "r \<noteq> None"
  proof
    assume "r = None"
    with run obtain g where "process_globs sys gen_init globs = Some (Inr g)"
      using generate_success by blast
    from process_globs_resolved [OF this] bad show False by auto
  qed
next
  assume "process_globs sys gen_init ps = Some (Inr g) \<and> Glob sys p = Inl e"
  then show "generate sys incHTTP w pkg prefix (ps @ p # qs) = Some (w, Some e)"
    by (simp add: generate_def process_globs_append)
qed

theorem glob_error_returned_witness:
  "generate example_sys False ''old'' ''main'' ''assets'' ([''a.txt''] @ ''['' # [''b.txt''])
     = Some (''old'', Some ErrBadPattern)"
  using glob_error_returned [of "''[''" "[''a.txt'', ''['', ''b.txt'']" example_sys ErrBadPattern
      False "''old''" "''main''" "''assets''" "[''a.txt'']"
      "\<lparr>offset = 3, fcount = 1, filenames = [''a.txt''],
        filemap = [(''a.txt'', \<lparr>entry_ts = 5, entry_offset = 0, entry_size = 3\<rparr>)],
        databuf = ''\<newline>    // a.txt\<newline>    0x01, 0x02, 0x03,\<newline>''\<rparr>" "[''b.txt'']"]
  by (simp add: example_defs)

section \<open>The generated Open\<close>

text \<open>
  Claim C8. For an entry of the manifest whose name \<open>n\<close> does not begin with a separator,
  the generated \<^verbatim>\<open>Open\<close> gives the same result for \<^verbatim>\<open>"/" + n\<close> as for \<open>n\<close>: both find the
  entry \<open>e\<close>, and (unless the range of \<open>e\<close> lies outside \<^verbatim>\<open>data\<close>, where the slice expression
  panics) return a reader on the range of \<open>e\<close> with its metadata.
\<close>

theorem Open_leading_separator:
  assumes "files fs n = Some e" and "\<not> HasPrefix n ''/''"
  shows "Open fs (''/'' @ n) = Open fs n \<and>
         Open fs n \<noteq> Returns (Inl ErrNotExist) \<and>
         (Open fs n = Panics \<or>
          Open fs n = Returns (Inr \<lparr>Reader = take (nat (entry_size e)) (drop (nat (entry_offset e)) (data fs)),
                                    fi = \<lparr>fi_name = path_Base n, fi_size = entry_size e,
                                           fi_mode = ModePerm, fi_ftime = entry_ts e\<rparr>\<rparr>))"
proof -
  have a: "TrimPrefix (CHR ''/'' # n) ''/'' = n" by (simp add: TrimPrefix_def HasPrefix_def)
  have b: "TrimPrefix n ''/'' = n" using assms(2) by (simp add: TrimPrefix_def)
  show ?thesis
    using assms(1) by (simp add: Open_def a b Let_def)
qed

theorem Open_leading_separator_witness:
  "Open example_assets (''/'' @ ''a.txt'') = Open example_assets ''a.txt'' \<and>
   Open example_assets ''a.txt'' =
     Returns (Inr \<lparr>Reader = [1, 2, 3],
                    fi = \<lparr>fi_name = ''a.txt'', fi_size = 3, fi_mode = ModePerm, fi_ftime = 5\<rparr>\<rparr>)"
  using Open_leading_separator [of example_assets "''a.txt''"
      "\<lparr>entry_ts = 5, entry_offset = 0, entry_size = 3\<rparr>"]
  by (simp add: example_assets_def HasPrefix_def Open_def TrimPrefix_def path_Base_def)

section \<open>Two runs on the same inputs\<close>

lemma process_file_cong:
  "os_Open sys' = os_Open sys \<Longrightarrow> process_file sys' g name = process_file sys g name"
  by (simp add: process_file_def)

lemma process_names_cong:
  assumes "os_Open sys' = os_Open sys"
  shows "process_names sys' g names = process_names sys g names"
  by (induction names arbitrary: g)
    (simp_all add: process_file_cong [OF assms] split: sum.split option.split)

lemma process_globs_cong:
  assumes "Glob sys' = Glob sys" and "os_Open sys' = os_Open sys"
  shows "process_globs sys' g globs = process_globs sys g globs"
  by (induction globs arbitrary: g)
    (simp_all add: assms(1) process_names_cong [OF assms(2)] split: sum.split option.split)

lemma concat_time:
  "concat (a # b # c # (d @ t @ e) # rest) = (a @ b @ c) @ d @ t @ e @ concat rest"
  by simp

lemma header_time:
  "\<exists>pre post. \<forall>t. header pkg t incHTTP prefix n = pre @ ''// at '' @ t @ ''\<newline>'' @ post"
  unfolding header_def
  by (rule exI, rule exI, rule allI, rule concat_time)

lemma render_split:
  "render sys pkg prefix incHTTP g =
     header pkg (Now sys) incHTTP prefix (offset g)
     @ (''var '' @ prefix @ '' = &'' @ prefix @ ''T{\<newline>''
        @ ''    filenames: '' @ fmt_strings (Quote sys) (filenames g) @ '',\<newline>''
        @ ''    files: map[string]struct{ts int64; offset int; size int}{\<newline>'')
     @ concat (map (entry_line (Quote sys)) (map_range sys (filemap g)))
     @ (''    },\<newline>''
        @ ''    data: ['' @ fmt_d (offset g) @ '']byte{\<newline>''
        @ databuf g
        @ ''    },\<newline>''
        @ ''}\<newline>'')"
  by (simp add: render_def)

text \<open>
  Claim C6, amended. Two runs in the same world, at different times and with different
  orders of \<^verbatim>\<open>range\<close> over the map, end the same way: both have no result, or both return
  the same error and write nothing, or both succeed, and then their outputs are equal but
  for the time, which stands only in the comment line \<^verbatim>\<open>// at ...\<close> of the header, and for
  the order of the lines of the initialiser of \<^verbatim>\<open>files\<close>, which are the same lines.
\<close>

theorem generate_deterministic_up_to_order:
  assumes "\<forall>al. mset (map_range sys al) = mset al" and "\<forall>al. mset (range' al) = mset al"
  shows "let sys' = sys\<lparr>Now := now', map_range := range'\<rparr> in
          (case generate sys incHTTP w pkg prefix globs of
             None \<Rightarrow> generate sys' incHTTP w pkg prefix globs = None
           | Some (w1, Some err) \<Rightarrow>
               w1 = w \<and> generate sys' incHTTP w pkg prefix globs = Some (w, Some err)
           | Some (w1, None) \<Rightarrow>
               (\<exists>n A al B.
                  w1 = w @ header pkg (Now sys) incHTTP prefix n @ A
                         @ concat (map (entry_line (Quote sys)) (map_range sys al)) @ B \<and>
                  generate sys' incHTTP w pkg prefix globs =
                    Some (w @ header pkg now' incHTTP prefix n @ A
                            @ concat (map (entry_line (Quote sys)) (range' al)) @ B, None) \<and>
                  mset (map (entry_line (Quote sys)) (map_range sys al)) =
                    mset (map (entry_line (Quote sys)) (range' al)) \<and>
                  (\<exists>pre post. \<forall>t. header pkg t incHTTP prefix n
                                     = pre @ ''// at '' @ t @ ''\<newline>'' @ post)))"
proof -
  define sys' where "sys' = sys\<lparr>Now := now', map_range := range'\<rparr>"
  have same: "process_globs sys' gen_init globs = process_globs sys gen_init globs"
    by (rule process_globs_cong) (simp_all add: sys'_def)
  have perm: "mset (map (entry_line (Quote sys)) (map_range sys al)) =
              mset (map (entry_line (Quote sys)) (range' al))" for al
    using assms by simp
  have main: "case generate sys incHTTP w pkg prefix globs of
             None \<Rightarrow> generate sys' incHTTP w pkg prefix globs = None
           | Some (w1, Some err) \<Rightarrow>
               w1 = w \<and> generate sys' incHTTP w pkg prefix globs = Some (w, Some err)
           | Some (w1, None) \<Rightarrow>
               (\<exists>n A al B.
                  w1 = w @ header pkg (Now sys) incHTTP prefix n @ A
                         @ concat (map (entry_line (Quote sys)) (map_range sys al)) @ B \<and>
                  generate sys' incHTTP w pkg prefix globs =
                    Some (w @ header pkg now' incHTTP prefix n @ A
                            @ concat (map (entry_line (Quote sys)) (range' al)) @ B, None) \<and>
                  mset (map (entry_line (Quote sys)) (map_range sys al)) =
                    mset (map (entry_line (Quote sys)) (range' al)) \<and>
                  (\<exists>pre post. \<forall>t. header pkg t incHTTP prefix n
                                     = pre @ ''// at '' @ t @ ''\<newline>'' @ post))"
  proof (cases "process_globs sys gen_init globs")
    case None
    then show ?thesis by (simp add: generate_def same)
  next
    case (Some r)
    show ?thesis
    proof (cases r)
      case (Inl err)
      with Some show ?thesis by (simp add: generate_def same)
    next
      case (Inr g)
      show ?thesis
      proof (cases "fcount g = 0")
        case True
        with Some Inr show ?thesis by (simp add: generate_def same)
      next
        case False
        let ?g = "g\<lparr>filenames := sort (filenames g)\<rparr>"
        have g1: "generate sys incHTTP w pkg prefix globs =
            Some (w @ render sys pkg prefix incHTTP ?g, None)"
          using Some Inr False by (simp add: generate_def)
        have g2: "generate sys' incHTTP w pkg prefix globs =
            Some (w @ render sys' pkg prefix incHTTP ?g, None)"
          using Some Inr False by (simp add: generate_def same)
        have s: "Now sys' = now'" "Quote sys' = Quote sys" "map_range sys' = range'"
          by (simp_all add: sys'_def)
        show ?thesis
          unfolding g1 g2 render_split s option.case prod.case
          using perm [of "filemap ?g"] header_time [of pkg incHTTP prefix "offset ?g"]
          by blast
      qed
    qed
  qed
  then show ?thesis unfolding Let_def sys'_def .
qed

text \<open>
  Claim C6 says that two runs on the same inputs write the same output but for the line of
  the time. Go leaves the order of \<^verbatim>\<open>range\<close> over a map to the runtime: two runs at the
  same time that visit the two entries of \<^verbatim>\<open>filemap\<close> in different orders write different
  outputs.
\<close>

theorem generate_deterministic_counterexample:
  "generate example_sys False [] ''main'' ''assets'' [''a.txt'', ''b.txt''] \<noteq>
   generate (example_sys\<lparr>map_range := rev\<rparr>) False [] ''main'' ''assets'' [''a.txt'', ''b.txt'']"
proof -
  have same: "process_globs (example_sys\<lparr>map_range := rev\<rparr>) gen_init [''a.txt'', ''b.txt''] =
      process_globs example_sys gen_init [''a.txt'', ''b.txt'']"
    by (rule process_globs_cong) simp_all
  have q: "Quote (example_sys\<lparr>map_range := rev\<rparr>) = Quote example_sys"
    "Now (example_sys\<lparr>map_range := rev\<rparr>) = Now example_sys"
    "map_range (example_sys\<lparr>map_range := rev\<rparr>) = rev"
    "map_range example_sys = (\<lambda>al. al)"
    "Quote example_sys = (\<lambda>s. [CHR 0x22] @ s @ [CHR 0x22])"
    by (simp_all add: example_sys_def)
  show ?thesis
    unfolding generate_def same example_run_ab
    by (simp add: render_split q entry_line_def)
qed

theorem generate_deterministic_up_to_order_witness:
  "\<exists>n A al B.
     generate example_sys False [] ''main'' ''assets'' [''a.txt'', ''b.txt''] =
       Some ([] @ header ''main'' (Now example_sys) False ''assets'' n @ A
             @ concat (map (entry_line (Quote example_sys)) al) @ B, None) \<and>
     generate (example_sys\<lparr>Now := ''Wed Nov  4 11:00:00 UTC 2026'', map_range := rev\<rparr>)
         False [] ''main'' ''assets'' [''a.txt'', ''b.txt''] =
       Some ([] @ header ''main'' ''Wed Nov  4 11:00:00 UTC 2026'' False ''assets'' n @ A
             @ concat (map (entry_line (Quote example_sys)) (rev al)) @ B, None)"
proof -
  have p: "\<forall>al. mset (map_range example_sys al) = mset al" "\<forall>al::(string \<times> entry) list. mset (rev al) = mset al"
    by (simp_all add: example_sys_def)
  have m: "map_range example_sys = (\<lambda>al. al)" by (simp add: example_sys_def)
  from generate_deterministic_up_to_order [OF p, of "''Wed Nov  4 11:00:00 UTC 2026''" False
      "[]" "''main''" "''assets''" "[''a.txt'', ''b.txt'']"]
  show ?thesis
    unfolding Let_def example_generate_ab option.case prod.case m by blast
qed

end
